theory Spec2Isabelle
  imports Main
begin

section \<open>JavaScript values read by the program\<close>

text \<open>
  The rows handled by \<^verbatim>\<open>Railwayapiservice.js\<close> and \<^verbatim>\<open>Dataprocessing.js\<close> are JSON objects
  whose fields carry text. A field is modelled as \<open>string option\<close>: \<open>None\<close> is an absent
  (\<^verbatim>\<open>undefined\<close>) or \<^verbatim>\<open>null\<close> field, \<open>Some s\<close> is the string \<open>s\<close>. Strings are byte lists.
  Rows whose fields hold JSON numbers, booleans or nested values are outside the model.
  A JavaScript number is an integer or \<^verbatim>\<open>NaN\<close>; fractions and values beyond the exactly
  representable integers are outside the model.
\<close>

datatype jsnum = NaN | Num int

text \<open>
  A \<^verbatim>\<open>Date\<close> object is represented by the two components the program reads from it, the
  local month (0 to 11) and the local full year; \<open>InvalidDate\<close> is the object whose time value
  is \<^verbatim>\<open>NaN\<close>.
\<close>

datatype jsdate = InvalidDate | ValidDate nat int

fun getMonth :: "jsdate \<Rightarrow> jsnum" where
  "getMonth InvalidDate = NaN"
| "getMonth (ValidDate m y) = Num (int m)"

fun getFullYear :: "jsdate \<Rightarrow> jsnum" where
  "getFullYear InvalidDate = NaN"
| "getFullYear (ValidDate m y) = Num y"

text \<open>Truthiness of a field: absent, \<^verbatim>\<open>null\<close> and the empty string are falsy.\<close>

definition truthy :: "string option \<Rightarrow> bool" where
  "truthy v = (case v of None \<Rightarrow> False | Some s \<Rightarrow> s \<noteq> [])"

text \<open>The operator \<^verbatim>\<open>a || b\<close> on two fields.\<close>

definition orElse :: "string option \<Rightarrow> string option \<Rightarrow> string option" where
  "orElse a b = (if truthy a then a else b)"

text \<open>The expression \<^verbatim>\<open>a || "literal"\<close>, used for group keys.\<close>

definition orDefault :: "string option \<Rightarrow> string \<Rightarrow> string" where
  "orDefault a d = (case a of None \<Rightarrow> d | Some s \<Rightarrow> if s = [] then d else s)"

subsection \<open>parseInt with radix 10\<close>

text \<open>
  \<^verbatim>\<open>parseInt(s, 10)\<close>: leading white space is skipped, one sign is read, then the longest
  run of decimal digits; with no digit the result is \<^verbatim>\<open>NaN\<close>. White space is the ASCII part
  of the engine's set (space, tab, line feed, vertical tab, form feed, carriage return).
\<close>

definition isWhiteSpace :: "char \<Rightarrow> bool" where
  "isWhiteSpace c = (c = CHR '' '' \<or> c = CHR 0x09 \<or> c = CHR 0x0A \<or> c = CHR 0x0B
     \<or> c = CHR 0x0C \<or> c = CHR 0x0D)"

definition decimalDigits :: string where
  "decimalDigits = ''0123456789''"

fun indexOf :: "'a \<Rightarrow> 'a list \<Rightarrow> nat option" where
  "indexOf x [] = None"
| "indexOf x (y # ys) = (if x = y then Some 0 else map_option Suc (indexOf x ys))"

definition digitOf :: "char \<Rightarrow> nat option" where
  "digitOf c = indexOf c decimalDigits"

definition isDigit :: "char \<Rightarrow> bool" where
  "isDigit c = (digitOf c \<noteq> None)"

definition digitVal :: "char \<Rightarrow> nat" where
  "digitVal c = (case digitOf c of None \<Rightarrow> 0 | Some d \<Rightarrow> d)"

definition digitsValue :: "string \<Rightarrow> nat" where
  "digitsValue ds = foldl (\<lambda>a c. 10 * a + digitVal c) 0 ds"

definition stripSign :: "string \<Rightarrow> bool \<times> string" where
  "stripSign s =
     (case s of
        [] \<Rightarrow> (False, [])
      | c # r \<Rightarrow> if c = CHR ''-'' then (True, r)
                 else if c = CHR ''+'' then (False, r) else (False, s))"


definition parseInt :: "string \<Rightarrow> jsnum" where
  "parseInt s =
     (let (neg, u) = stripSign (dropWhile isWhiteSpace s);
          z = takeWhile isDigit u
      in if z = [] then NaN
         else Num ((if neg then - 1 else 1) * int (digitsValue z)))"

text \<open>\<^verbatim>\<open>String(n)\<close> for a non-negative integer and \<^verbatim>\<open>padStart\<close>.\<close>

definition digitChar :: "nat \<Rightarrow> char" where
  "digitChar d = decimalDigits ! (d mod 10)"

function natToString :: "nat \<Rightarrow> string" where
  "natToString n =
     (if n < 10 then [digitChar n] else natToString (n div 10) @ [digitChar (n mod 10)])"
  by pat_completeness auto
termination
  by (relation "measure id") auto

declare natToString.simps [simp del]

definition padStart :: "nat \<Rightarrow> char \<Rightarrow> string \<Rightarrow> string" where
  "padStart n c s = replicate (n - length s) c @ s"

section \<open>Record normalizer (fetchZoneData, lines 97 to 111)\<close>

text \<open>
  The fields of a raw row that the modelled functions read. The object spread
  \<^verbatim>\<open>...row\<close> copies them into the normalized record, which adds the derived fields.
\<close>

record raw_row =
  dvsn :: "string option"
  sttnfrom :: "string option"
  dmnddate :: "string option"
  dmndtime :: "string option"
  time :: "string option"
  csnr :: "string option"
  cnsg :: "string option"
  dstn :: "string option"
  indttype :: "string option"
  indtunit :: "string option"
  indt8w :: "string option"
  ostgunit :: "string option"
  ostg8w :: "string option"

record canonical = raw_row +
  qry :: string
  zone :: string
  demandDateObj :: "jsdate option"
  month :: "jsnum option"
  year :: "jsnum option"
  rakeUnits :: jsnum
  rake8w :: jsnum

text \<open>
  \<^verbatim>\<open>parseInt(a || b || 0, 10)\<close>: the first truthy field is parsed; when neither is truthy the
  number \<^verbatim>\<open>0\<close> is parsed, through its string \<^verbatim>\<open>"0"\<close>.
\<close>

definition parseUnits :: "string option \<Rightarrow> string option \<Rightarrow> jsnum" where
  "parseUnits a b =
     (case orElse a b of
        None \<Rightarrow> parseInt ''0''
      | Some s \<Rightarrow> if s = [] then parseInt ''0'' else parseInt s)"

text \<open>
  The \<^verbatim>\<open>Date\<close> constructor belongs to the engine; it is a parameter \<open>newDate\<close> of the
  normalizer. The three date fields test \<^verbatim>\<open>row.dmnddate\<close> for truthiness only.
\<close>

definition normalizeRow ::
  "(string \<Rightarrow> jsdate) \<Rightarrow> string \<Rightarrow> string \<Rightarrow> raw_row \<Rightarrow> canonical" where
  "normalizeRow newDate zone' queryType row =
     raw_row.extend row
       \<lparr> qry = queryType,
         zone = zone',
         demandDateObj =
           (case dmnddate row of None \<Rightarrow> None
            | Some d \<Rightarrow> if d = [] then None else Some (newDate d)),
         month =
           (case dmnddate row of None \<Rightarrow> None
            | Some d \<Rightarrow> if d = [] then None else Some (getMonth (newDate d))),
         year =
           (case dmnddate row of None \<Rightarrow> None
            | Some d \<Rightarrow> if d = [] then None else Some (getFullYear (newDate d))),
         rakeUnits = parseUnits (indtunit row) (ostgunit row),
         rake8w = parseUnits (indt8w row) (ostg8w row) \<rparr>"

text \<open>Rows of division \<^verbatim>\<open>"TOTAL"\<close> are dropped, the others normalized in order.\<close>

definition processRows ::
  "(string \<Rightarrow> jsdate) \<Rightarrow> string \<Rightarrow> string \<Rightarrow> raw_row list \<Rightarrow> canonical list" where
  "processRows newDate zone' queryType rows =
     map (normalizeRow newDate zone' queryType)
       (filter (\<lambda>row. dvsn row \<noteq> Some ''TOTAL'') rows)"

section \<open>Aggregation reducers (Dataprocessing.js)\<close>

subsection \<open>Map objects and array operations\<close>

text \<open>
  A JavaScript \<^verbatim>\<open>Map\<close> iterates in insertion order of its keys; it is a list of
  key and value pairs with distinct keys. \<open>mapSet\<close> is \<^verbatim>\<open>map.set(k, v)\<close>; \<open>mapModify\<close>
  is a mutation of the entry object obtained with \<^verbatim>\<open>map.get(k)\<close>.
\<close>

definition mapHas :: "'k \<Rightarrow> ('k \<times> 'v) list \<Rightarrow> bool" where
  "mapHas k m = (map_of m k \<noteq> None)"

definition mapModify :: "'k \<Rightarrow> ('v \<Rightarrow> 'v) \<Rightarrow> ('k \<times> 'v) list \<Rightarrow> ('k \<times> 'v) list" where
  "mapModify k f m = map (\<lambda>(k', v). if k' = k then (k', f v) else (k', v)) m"

definition mapSet :: "'k \<Rightarrow> 'v \<Rightarrow> ('k \<times> 'v) list \<Rightarrow> ('k \<times> 'v) list" where
  "mapSet k v m = (if mapHas k m then mapModify k (\<lambda>_. v) m else m @ [(k, v)])"

definition mapValues :: "('k \<times> 'v) list \<Rightarrow> 'v list" where
  "mapValues m = map snd m"

text \<open>
  \<^verbatim>\<open>array.sort((a, b) => f(b) - f(a))\<close>: a stable sort, descending in \<open>f\<close>.
\<close>

definition sortDescending :: "('a \<Rightarrow> int) \<Rightarrow> 'a list \<Rightarrow> 'a list" where
  "sortDescending f xs = sort_key (\<lambda>e. - f e) xs"

text \<open>
  \<^verbatim>\<open>array.slice(0, limit)\<close> for an integer limit: a negative limit counts from the end.
\<close>

definition sliceTo :: "int \<Rightarrow> 'a list \<Rightarrow> 'a list" where
  "sliceTo limit xs =
     (if limit < 0 then take (nat (int (length xs) + limit)) xs else take (nat limit) xs)"

text \<open>\<^verbatim>\<open>record.rakeUnits || 0\<close>: \<^verbatim>\<open>NaN\<close> and \<^verbatim>\<open>0\<close> are falsy.\<close>

fun unitsOrZero :: "jsnum \<Rightarrow> int" where
  "unitsOrZero NaN = 0"
| "unitsOrZero (Num n) = n"

subsection \<open>getTopConsignors and getConsigneeAnalysis\<close>

record order_bucket =
  name :: string
  orders :: nat
  units :: int

definition consignorStep ::
  "canonical \<Rightarrow> (string \<times> order_bucket) list \<Rightarrow> (string \<times> order_bucket) list" where
  "consignorStep record consignorMap =
     (let consignor = orDefault (csnr record) ''Unknown'';
          m1 = (if \<not> mapHas consignor consignorMap
                then mapSet consignor
                       \<lparr> order_bucket.name = consignor, order_bucket.orders = 0,
                         order_bucket.units = 0 \<rparr> consignorMap
                else consignorMap)
      in mapModify consignor
           (\<lambda>entry. entry\<lparr> order_bucket.orders := order_bucket.orders entry + 1,
                           order_bucket.units :=
                             order_bucket.units entry + unitsOrZero (rakeUnits record) \<rparr>) m1)"

definition getTopConsignors :: "canonical list \<Rightarrow> int option \<Rightarrow> order_bucket list" where
  "getTopConsignors data' limit =
     sliceTo (case limit of None \<Rightarrow> 10 | Some l \<Rightarrow> l)
       (sortDescending (\<lambda>e. int (order_bucket.orders e))
          (mapValues (foldl (\<lambda>m r. consignorStep r m) [] data')))"

definition consigneeStep ::
  "canonical \<Rightarrow> (string \<times> order_bucket) list \<Rightarrow> (string \<times> order_bucket) list" where
  "consigneeStep record consigneeMap =
     (let consignee = orDefault (cnsg record) ''Unknown'';
          m1 = (if \<not> mapHas consignee consigneeMap
                then mapSet consignee
                       \<lparr> order_bucket.name = consignee, order_bucket.orders = 0,
                         order_bucket.units = 0 \<rparr> consigneeMap
                else consigneeMap)
      in mapModify consignee
           (\<lambda>entry. entry\<lparr> order_bucket.orders := order_bucket.orders entry + 1,
                           order_bucket.units :=
                             order_bucket.units entry + unitsOrZero (rakeUnits record) \<rparr>) m1)"

definition getConsigneeAnalysis :: "canonical list \<Rightarrow> int option \<Rightarrow> order_bucket list" where
  "getConsigneeAnalysis data' limit =
     sliceTo (case limit of None \<Rightarrow> 10 | Some l \<Rightarrow> l)
       (sortDescending (\<lambda>e. int (order_bucket.orders e))
          (mapValues (foldl (\<lambda>m r. consigneeStep r m) [] data')))"

subsection \<open>getTopDestinations\<close>

record shipment_bucket =
  name :: string
  shipments :: nat
  units :: int

definition destinationStep ::
  "canonical \<Rightarrow> (string \<times> shipment_bucket) list \<Rightarrow> (string \<times> shipment_bucket) list" where
  "destinationStep record destinationMap =
     (let destination = orDefault (dstn record) ''Unknown'';
          m1 = (if \<not> mapHas destination destinationMap
                then mapSet destination
                       \<lparr> shipment_bucket.name = destination, shipment_bucket.shipments = 0,
                         shipment_bucket.units = 0 \<rparr> destinationMap
                else destinationMap)
      in mapModify destination
           (\<lambda>entry. entry\<lparr> shipment_bucket.shipments := shipment_bucket.shipments entry + 1,
                           shipment_bucket.units :=
                             shipment_bucket.units entry + unitsOrZero (rakeUnits record) \<rparr>) m1)"

definition getTopDestinations :: "canonical list \<Rightarrow> int option \<Rightarrow> shipment_bucket list" where
  "getTopDestinations data' limit =
     sliceTo (case limit of None \<Rightarrow> 10 | Some l \<Rightarrow> l)
       (sortDescending (\<lambda>e. int (shipment_bucket.shipments e))
          (mapValues (foldl (\<lambda>m r. destinationStep r m) [] data')))"

subsection \<open>aggregateByRakeType\<close>

record rake_bucket =
  name :: string
  units :: int
  count :: nat

definition rakeTypeStep ::
  "canonical \<Rightarrow> (string \<times> rake_bucket) list \<Rightarrow> (string \<times> rake_bucket) list" where
  "rakeTypeStep record rakeTypeMap =
     (let rakeType = orDefault (indttype record) ''Unknown'';
          m1 = (if \<not> mapHas rakeType rakeTypeMap
                then mapSet rakeType
                       \<lparr> rake_bucket.name = rakeType, rake_bucket.units = 0,
                         rake_bucket.count = 0 \<rparr> rakeTypeMap
                else rakeTypeMap)
      in mapModify rakeType
           (\<lambda>entry. entry\<lparr> rake_bucket.units :=
                             rake_bucket.units entry + unitsOrZero (rakeUnits record),
                           rake_bucket.count := rake_bucket.count entry + 1 \<rparr>) m1)"

definition aggregateByRakeType :: "canonical list \<Rightarrow> int option \<Rightarrow> rake_bucket list" where
  "aggregateByRakeType data' limit =
     sliceTo (case limit of None \<Rightarrow> 10 | Some l \<Rightarrow> l)
       (sortDescending rake_bucket.units
          (mapValues (foldl (\<lambda>m r. rakeTypeStep r m) [] data')))"

subsection \<open>getRouteAnalysis\<close>

record route_bucket =
  route :: string
  origin :: string
  destination :: string
  shipments :: nat
  units :: int

text \<open>The separator of a route key: a space, the arrow U+2192 in UTF-8, a space.\<close>

definition arrow :: string where
  "arrow = [CHR '' '', CHR 0xE2, CHR 0x86, CHR 0x92, CHR '' '']"

definition routeKey :: "canonical \<Rightarrow> string" where
  "routeKey record =
     orDefault (sttnfrom record) ''Unknown'' @ arrow @ orDefault (dstn record) ''Unknown''"

definition routeStep ::
  "canonical \<Rightarrow> (string \<times> route_bucket) list \<Rightarrow> (string \<times> route_bucket) list" where
  "routeStep record routeMap =
     (let origin' = orDefault (sttnfrom record) ''Unknown'';
          destination' = orDefault (dstn record) ''Unknown'';
          route' = routeKey record;
          m1 = (if \<not> mapHas route' routeMap
                then mapSet route'
                       \<lparr> route = route', origin = origin', destination = destination',
                         route_bucket.shipments = 0, route_bucket.units = 0 \<rparr> routeMap
                else routeMap)
      in mapModify route'
           (\<lambda>entry. entry\<lparr> route_bucket.shipments := route_bucket.shipments entry + 1,
                           route_bucket.units :=
                             route_bucket.units entry + unitsOrZero (rakeUnits record) \<rparr>) m1)"

text \<open>The parameter \<^verbatim>\<open>limit = 15\<close>: an omitted argument is \<open>None\<close>.\<close>

definition getRouteAnalysis :: "canonical list \<Rightarrow> int option \<Rightarrow> route_bucket list" where
  "getRouteAnalysis data' limit =
     sliceTo (case limit of None \<Rightarrow> 15 | Some l \<Rightarrow> l)
       (sortDescending (\<lambda>e. int (route_bucket.shipments e))
          (mapValues (foldl (\<lambda>m r. routeStep r m) [] data')))"

subsection \<open>getTimeDistribution\<close>

record hour_bucket =
  hour :: string
  orders :: nat

definition hourLabel :: "nat \<Rightarrow> string" where
  "hourLabel i = padStart 2 (CHR ''0'') (natToString i) @ '':00''"

text \<open>The loop \<^verbatim>\<open>for (let i = 0; i < 24; i++) hourMap.set(i, ...)\<close> on the empty map.\<close>

definition initHourMap :: "(int \<times> hour_bucket) list" where
  "initHourMap =
     foldl (\<lambda>m i. mapSet (int i) \<lparr> hour = hourLabel i, hour_bucket.orders = 0 \<rparr> m) [] [0..<24]"

text \<open>
  The local \<^verbatim>\<open>hour\<close> of a record that has a time string:
  \<^verbatim>\<open>parseInt(timeStr.split(":")[0], 10)\<close> with \<^verbatim>\<open>timeStr = record.dmndtime || record.time\<close>.
\<close>

definition parsedHour :: "canonical \<Rightarrow> jsnum option" where
  "parsedHour record =
     (case orElse (dmndtime record) (time record) of
        None \<Rightarrow> None
      | Some timeStr \<Rightarrow>
          if timeStr = [] then None
          else Some (parseInt (takeWhile (\<lambda>c. c \<noteq> CHR '':'') timeStr)))"

definition hourStep ::
  "canonical \<Rightarrow> (int \<times> hour_bucket) list \<Rightarrow> (int \<times> hour_bucket) list" where
  "hourStep record hourMap =
     (case parsedHour record of
        None \<Rightarrow> hourMap
      | Some NaN \<Rightarrow> hourMap
      | Some (Num h) \<Rightarrow>
          if h \<ge> 0 \<and> h < 24
          then mapModify h
                 (\<lambda>entry. entry\<lparr> hour_bucket.orders := hour_bucket.orders entry + 1 \<rparr>) hourMap
          else hourMap)"

definition getTimeDistribution :: "canonical list \<Rightarrow> hour_bucket list" where
  "getTimeDistribution data' = mapValues (foldl (\<lambda>m r. hourStep r m) initHourMap data')"

section \<open>The fetch service (Railwayapiservice.js)\<close>

subsection \<open>Configuration\<close>

definition config_zones :: "string list" where
  "config_zones =
     [''CR'', ''DFCCR'', ''EC'', ''ECO'', ''ER'', ''KR'', ''NC'', ''NE'', ''NR'', ''NW'',
      ''SC'', ''SE'', ''SEC'', ''SR'', ''SW'', ''WC'', ''WR'']"

definition config_queryTypes :: "string list" where
  "config_queryTypes = [''MATURED_INDENTS'', ''ODR_RK_OTSG'', ''DEMAND_REGISTERED'']"

definition retryAttempts :: nat where
  "retryAttempts = 3"

definition batchSize :: nat where
  "batchSize = 3"

subsection \<open>Errors, responses and the engine\<close>

text \<open>Every value the program can throw or reject with, and its \<^verbatim>\<open>message\<close>.\<close>

datatype js_error =
    FetchFailed string
  | AbortError
  | HttpError nat
  | JsonError string
  | TypeError string
  | CallbackError string

fun message :: "js_error \<Rightarrow> string" where
  "message (FetchFailed m) = m"
| "message AbortError = ''The operation was aborted.''"
| "message (HttpError status) = ''HTTP error! status: '' @ natToString status"
| "message (JsonError m) = m"
| "message (TypeError m) = m"
| "message (CallbackError m) = m"

text \<open>
  The parsed JSON body of a response, by what lines 97 to 111 do with it: an object whose
  \<^verbatim>\<open>data\<close> is an array of rows; an object whose \<^verbatim>\<open>data\<close> is falsy, read as the empty
  array; any other value, on which the processing throws a \<^verbatim>\<open>TypeError\<close>.
\<close>

datatype body = BodyRows "raw_row list" | BodyNoData | BodyMalformed string

text \<open>
  One exchange with the upstream: the promise of \<^verbatim>\<open>fetch\<close> rejects, or it resolves with a
  status and the outcome of \<^verbatim>\<open>response.json()\<close> (\<open>Inl\<close> when that rejects).
\<close>

datatype exchange = Rejected string | Resolved nat "string + body"

definition ok :: "nat \<Rightarrow> bool" where
  "ok status = (200 \<le> status \<and> status \<le> 299)"

text \<open>
  What the program takes from the engine and the network. \<open>network n zone queryType\<close> is
  the exchange that answers the \<open>n\<close>-th call of \<^verbatim>\<open>fetch\<close> when it posts the payload of
  this zone and query type. \<open>roundPercent c t\<close> is \<^verbatim>\<open>Math.round((c / t) * 100)\<close>, computed
  by the engine in floating point. \<open>now\<close> is \<^verbatim>\<open>new Date().toISOString()\<close>.
\<close>

record platform =
  network :: "nat \<Rightarrow> string \<Rightarrow> string \<Rightarrow> exchange"
  newDate :: "string \<Rightarrow> jsdate"
  roundPercent :: "nat \<Rightarrow> nat \<Rightarrow> int"
  now :: string

subsection \<open>State\<close>

record progress_event =
  completed :: nat
  total :: nat
  percentage :: int
  zone :: string
  queryType :: string
  recordsFetched :: "nat option"
  error :: "string option"

text \<open>
  The fields of the service object are \<open>cache\<close>, \<open>isFetching\<close> and \<open>abortController\<close>.
  Arrays are objects with identity: the cache holds references into \<open>heap\<close>, and
  \<open>nextRef\<close> is the next fresh reference. \<open>controllers\<close> holds the \<^verbatim>\<open>aborted\<close> flag of every
  \<^verbatim>\<open>AbortController\<close> created so far; \<open>abortController\<close> is the index of the current one,
  \<open>None\<close> for \<^verbatim>\<open>null\<close>. The last three fields are observation only: every call of
  \<^verbatim>\<open>fetch\<close> with its outcome, every call of \<^verbatim>\<open>fetchZoneData\<close>, and every event passed to the
  progress callback. No function reads them, except that the length of \<open>requests\<close> numbers
  the calls of \<^verbatim>\<open>fetch\<close>.
\<close>

record state =
  cache :: "string \<rightharpoonup> nat"
  isFetching :: bool
  abortController :: "nat option"
  controllers :: "bool list"
  heap :: "nat \<rightharpoonup> canonical list"
  nextRef :: nat
  requests :: "(string \<times> string \<times> (js_error + body)) list"
  invoked :: "(string \<times> string) list"
  events :: "progress_event list"

text \<open>The constructor.\<close>

definition newService :: state where
  "newService =
     \<lparr> cache = Map.empty, isFetching = False, abortController = None, controllers = [],
       heap = Map.empty, nextRef = 0, requests = [], invoked = [], events = [] \<rparr>"

definition newArray :: "canonical list \<Rightarrow> state \<Rightarrow> nat \<times> state" where
  "newArray xs s = (nextRef s, s\<lparr> heap := (heap s)(nextRef s \<mapsto> xs), nextRef := nextRef s + 1 \<rparr>)"

definition readArray :: "state \<Rightarrow> nat \<Rightarrow> canonical list" where
  "readArray s a = (case heap s a of None \<Rightarrow> [] | Some xs \<Rightarrow> xs)"

text \<open>What any holder of an array reference can do: \<^verbatim>\<open>array.push(x)\<close>.\<close>

definition arrayPush :: "nat \<Rightarrow> canonical \<Rightarrow> state \<Rightarrow> state" where
  "arrayPush a x s = s\<lparr> heap := (heap s)(a \<mapsto> readArray s a @ [x]) \<rparr>"

definition signalAborted :: "nat option \<Rightarrow> state \<Rightarrow> bool" where
  "signalAborted signal s =
     (case signal of None \<Rightarrow> False | Some c \<Rightarrow> c < length (controllers s) \<and> controllers s ! c)"

subsection \<open>fetchWithRetry\<close>

text \<open>
  The \<^verbatim>\<open>try\<close> block of \<^verbatim>\<open>fetchWithRetry\<close>: one call of \<^verbatim>\<open>fetch\<close>, the status check and
  \<^verbatim>\<open>response.json()\<close>. A \<^verbatim>\<open>fetch\<close> whose signal is aborted rejects with \<^verbatim>\<open>AbortError\<close> and
  reaches no network.
\<close>

definition attemptFetch ::
  "platform \<Rightarrow> string \<Rightarrow> string \<Rightarrow> nat option \<Rightarrow> state \<Rightarrow> (js_error + body) \<times> state" where
  "attemptFetch P zone' queryType' signal s =
     (let r = (if signalAborted signal s then Inl AbortError
               else case network P (length (requests s)) zone' queryType' of
                      Rejected m \<Rightarrow> Inl (FetchFailed m)
                    | Resolved status j \<Rightarrow>
                        if \<not> ok status then Inl (HttpError status)
                        else (case j of Inl m \<Rightarrow> Inl (JsonError m) | Inr b \<Rightarrow> Inr b))
      in (r, s\<lparr> requests := requests s @ [(zone', queryType', r)] \<rparr>))"

text \<open>
  The \<^verbatim>\<open>catch\<close> block retries while \<^verbatim>\<open>attempt < retryAttempts\<close>, then rethrows. The waits
  between attempts take time only and are left out.
\<close>

function fetchWithRetry ::
  "platform \<Rightarrow> string \<Rightarrow> string \<Rightarrow> nat option \<Rightarrow> nat \<Rightarrow> state \<Rightarrow> (js_error + body) \<times> state"
  where
  "fetchWithRetry P zone' queryType' signal attempt s =
     (case attemptFetch P zone' queryType' signal s of
        (Inr b, s1) \<Rightarrow> (Inr b, s1)
      | (Inl e, s1) \<Rightarrow>
          if attempt < retryAttempts
          then fetchWithRetry P zone' queryType' signal (attempt + 1) s1
          else (Inl e, s1))"
  by pat_completeness auto
termination
  by (relation "measure (\<lambda>(P, z, q, sg, attempt, s). retryAttempts - attempt)") auto

declare fetchWithRetry.simps [simp del]

subsection \<open>fetchZoneData\<close>

definition processResponse ::
  "platform \<Rightarrow> string \<Rightarrow> string \<Rightarrow> body \<Rightarrow> js_error + canonical list" where
  "processResponse P zone' queryType' b =
     (case b of
        BodyRows rows \<Rightarrow> Inr (processRows (newDate P) zone' queryType' rows)
      | BodyNoData \<Rightarrow> Inr (processRows (newDate P) zone' queryType' [])
      | BodyMalformed m \<Rightarrow> Inl (TypeError m))"

definition cacheKey :: "string \<Rightarrow> string \<Rightarrow> string" where
  "cacheKey zone' queryType' = zone' @ ''-'' @ queryType'"

text \<open>
  A cache hit returns the cached array itself. Everything after the cache check is inside
  the \<^verbatim>\<open>try\<close>: an error of \<^verbatim>\<open>fetchWithRetry\<close> or of the processing is logged and a new
  empty array is returned; the cache is written on the other path only.
\<close>

definition fetchZoneData ::
  "platform \<Rightarrow> string \<Rightarrow> string \<Rightarrow> nat option \<Rightarrow> state \<Rightarrow> nat \<times> state" where
  "fetchZoneData P zone' queryType' signal s =
     (let s0 = s\<lparr> invoked := invoked s @ [(zone', queryType')] \<rparr> in
      case cache s0 (cacheKey zone' queryType') of
        Some a \<Rightarrow> (a, s0)
      | None \<Rightarrow>
          (case fetchWithRetry P zone' queryType' signal 1 s0 of
             (Inl e, s1) \<Rightarrow> newArray [] s1
           | (Inr b, s1) \<Rightarrow>
               (case processResponse P zone' queryType' b of
                  Inl e \<Rightarrow> newArray [] s1
                | Inr processedData \<Rightarrow>
                    (case newArray processedData s1 of
                       (a, s2) \<Rightarrow>
                         (a, s2\<lparr> cache := (cache s2)(cacheKey zone' queryType' \<mapsto> a) \<rparr>)))))"

subsection \<open>cancelFetch and clearCache\<close>

definition cancelFetch :: "state \<Rightarrow> state" where
  "cancelFetch s =
     (case abortController s of
        None \<Rightarrow> s
      | Some c \<Rightarrow> s\<lparr> controllers := (controllers s)[c := True], isFetching := False \<rparr>)"

definition clearCache :: "state \<Rightarrow> state" where
  "clearCache s = s\<lparr> cache := Map.empty \<rparr>"

subsection \<open>fetchBatchData\<close>

text \<open>
  What a call of the caller's progress callback does, besides receiving the event: it
  returns, it calls \<^verbatim>\<open>cancelFetch()\<close> on the service and returns, or it throws.
\<close>

datatype callback_effect = Returns | CallsCancel | Throws string

definition callProgress ::
  "(progress_event \<Rightarrow> callback_effect) \<Rightarrow> progress_event \<Rightarrow> state \<Rightarrow> string option \<times> state"
  where
  "callProgress onProgress ev s =
     (let s1 = s\<lparr> events := events s @ [ev] \<rparr> in
      case onProgress ev of
        Returns \<Rightarrow> (None, s1)
      | CallsCancel \<Rightarrow> (None, cancelFetch s1)
      | Throws m \<Rightarrow> (Some m, s1))"

text \<open>
  The asynchronous function given to \<^verbatim>\<open>zoneBatch.map\<close>, for one zone. \<open>completedRequests\<close>
  is the counter shared by all of them. The \<^verbatim>\<open>catch\<close> block runs when the \<^verbatim>\<open>try\<close> block
  throws; \<open>Inl\<close> is a rejected promise.
\<close>

definition partitionTask ::
  "platform \<Rightarrow> (progress_event \<Rightarrow> callback_effect) option \<Rightarrow> nat \<Rightarrow> nat option \<Rightarrow> string \<Rightarrow>
   string \<Rightarrow> nat \<times> state \<Rightarrow> (js_error + nat) \<times> nat \<times> state" where
  "partitionTask P onProgress totalRequests signal queryType' zone' cs =
     (case cs of (completedRequests, s) \<Rightarrow>
      (case fetchZoneData P zone' queryType' signal s of (data', s1) \<Rightarrow>
       (let c1 = completedRequests + 1 in
        case onProgress of
          None \<Rightarrow> (Inr data', c1, s1)
        | Some f \<Rightarrow>
            (case callProgress f
                    \<lparr> completed = c1, total = totalRequests,
                      percentage = roundPercent P c1 totalRequests,
                      zone = zone', queryType = queryType',
                      recordsFetched = Some (length (readArray s1 data')), error = None \<rparr> s1 of
               (None, s2) \<Rightarrow> (Inr data', c1, s2)
             | (Some m, s2) \<Rightarrow>
                 (let c2 = c1 + 1 in
                  case callProgress f
                         \<lparr> completed = c2, total = totalRequests,
                           percentage = roundPercent P c2 totalRequests,
                           zone = zone', queryType = queryType',
                           recordsFetched = None, error = Some m \<rparr> s2 of
                    (None, s3) \<Rightarrow> (case newArray [] s3 of (a, s4) \<Rightarrow> (Inr a, c2, s4))
                  | (Some m', s3) \<Rightarrow> (Inl (CallbackError m'), c2, s3))))))"

text \<open>
  \<^verbatim>\<open>zoneBatch.map(...)\<close> starts the tasks of a group in zone order. They are modelled as
  running one after the other in that order; all of them run, also after one has rejected.
\<close>

fun runZoneBatch ::
  "platform \<Rightarrow> (progress_event \<Rightarrow> callback_effect) option \<Rightarrow> nat \<Rightarrow> nat option \<Rightarrow> string \<Rightarrow>
   string list \<Rightarrow> nat \<times> state \<Rightarrow> (js_error + nat) list \<times> nat \<times> state" where
  "runZoneBatch P onProgress totalRequests signal queryType' [] cs = ([], cs)"
| "runZoneBatch P onProgress totalRequests signal queryType' (zone' # zoneBatch) cs =
     (case partitionTask P onProgress totalRequests signal queryType' zone' cs of
        (r, cs1) \<Rightarrow>
          (case runZoneBatch P onProgress totalRequests signal queryType' zoneBatch cs1 of
             (rs, cs2) \<Rightarrow> (r # rs, cs2)))"

text \<open>\<^verbatim>\<open>Promise.all\<close>: the results in order, or the first rejection.\<close>

fun promiseAll :: "(js_error + nat) list \<Rightarrow> js_error + nat list" where
  "promiseAll [] = Inr []"
| "promiseAll (Inl e # rs) = Inl e"
| "promiseAll (Inr a # rs) = (case promiseAll rs of Inl e \<Rightarrow> Inl e | Inr as \<Rightarrow> Inr (a # as))"

text \<open>
  The loop \<^verbatim>\<open>for (const queryType of queryTypes)\<close> for one zone batch.
  \<^verbatim>\<open>allData.concat(...batchResults)\<close> reads the arrays when the group has settled. The
  delay between batches takes time only and is left out.
\<close>

fun queryTypeLoop ::
  "platform \<Rightarrow> (progress_event \<Rightarrow> callback_effect) option \<Rightarrow> nat \<Rightarrow> nat option \<Rightarrow>
   string list \<Rightarrow> string list \<Rightarrow> nat \<times> canonical list \<times> state \<Rightarrow>
   (js_error + canonical list) \<times> nat \<times> state" where
  "queryTypeLoop P onProgress totalRequests signal zoneBatch [] (c, allData, s) =
     (Inr allData, c, s)"
| "queryTypeLoop P onProgress totalRequests signal zoneBatch (queryType' # queryTypes)
     (c, allData, s) =
     (case runZoneBatch P onProgress totalRequests signal queryType' zoneBatch (c, s) of
        (rs, c1, s1) \<Rightarrow>
          (case promiseAll rs of
             Inl e \<Rightarrow> (Inl e, c1, s1)
           | Inr batchResults \<Rightarrow>
               queryTypeLoop P onProgress totalRequests signal zoneBatch queryTypes
                 (c1, allData @ concat (map (readArray s1) batchResults), s1)))"

text \<open>The loop \<^verbatim>\<open>for (let i = 0; i < zones.length; i += batchSize)\<close>.\<close>

function batchLoop ::
  "platform \<Rightarrow> (progress_event \<Rightarrow> callback_effect) option \<Rightarrow> nat \<Rightarrow> nat option \<Rightarrow>
   string list \<Rightarrow> string list \<Rightarrow> nat \<Rightarrow> nat \<times> canonical list \<times> state \<Rightarrow>
   (js_error + canonical list) \<times> nat \<times> state" where
  "batchLoop P onProgress totalRequests signal zones queryTypes i cas =
     (if i < length zones then
        (case queryTypeLoop P onProgress totalRequests signal
                (take batchSize (drop i zones)) queryTypes cas of
           (Inl e, c1, s1) \<Rightarrow> (Inl e, c1, s1)
         | (Inr allData, c1, s1) \<Rightarrow>
             batchLoop P onProgress totalRequests signal zones queryTypes (i + batchSize)
               (c1, allData, s1))
      else (case cas of (c, allData, s) \<Rightarrow> (Inr allData, c, s)))"
  by pat_completeness auto
termination
  by (relation "measure (\<lambda>(P, f, t, sg, zones, qs, i, cas). length zones - i)")
     (auto simp: batchSize_def)

declare batchLoop.simps [simp del]

text \<open>
  \<^verbatim>\<open>this.abortController = new AbortController()\<close>; the result is the new signal.
\<close>

definition newAbortController :: "state \<Rightarrow> nat \<times> state" where
  "newAbortController s =
     (length (controllers s),
      s\<lparr> abortController := Some (length (controllers s)),
         controllers := controllers s @ [False] \<rparr>)"

definition fetchBatchData ::
  "platform \<Rightarrow> string list \<Rightarrow> string list \<Rightarrow> (progress_event \<Rightarrow> callback_effect) option \<Rightarrow>
   state \<Rightarrow> (js_error + canonical list) \<times> state" where
  "fetchBatchData P zones queryTypes onProgress s =
     (case newAbortController s of
        (signal, s0) \<Rightarrow>
          (let totalRequests = length zones * length queryTypes in
           case batchLoop P onProgress totalRequests (Some signal) zones queryTypes 0
                  (0, [], s0) of
             (r, completedRequests, s1) \<Rightarrow> (r, s1)))"

subsection \<open>fetchAllData and fetchSelectedZones\<close>

record fetch_result =
  success :: bool
  data :: "canonical list"
  totalRecords :: nat
  timestamp :: "string option"
  error :: "string option"

definition fetchSelectedZones ::
  "platform \<Rightarrow> string list \<Rightarrow> string list \<Rightarrow> (progress_event \<Rightarrow> callback_effect) option \<Rightarrow>
   state \<Rightarrow> fetch_result \<times> state" where
  "fetchSelectedZones P zones queryTypes onProgress s =
     (case fetchBatchData P zones queryTypes onProgress (s\<lparr> isFetching := True \<rparr>) of
        (Inr d, s1) \<Rightarrow>
          (\<lparr> success = True, data = d, totalRecords = length d, timestamp = Some (now P),
             fetch_result.error = None \<rparr>, s1\<lparr> isFetching := False \<rparr>)
      | (Inl e, s1) \<Rightarrow>
          (\<lparr> success = False, data = [], totalRecords = 0, timestamp = None,
             fetch_result.error = Some (message e) \<rparr>, s1\<lparr> isFetching := False \<rparr>))"

definition fetchAllData ::
  "platform \<Rightarrow> (progress_event \<Rightarrow> callback_effect) option \<Rightarrow> state \<Rightarrow> fetch_result \<times> state"
  where
  "fetchAllData P onProgress s =
     (case fetchBatchData P config_zones config_queryTypes onProgress
             (s\<lparr> isFetching := True \<rparr>) of
        (Inr d, s1) \<Rightarrow>
          (\<lparr> success = True, data = d, totalRecords = length d, timestamp = Some (now P),
             fetch_result.error = None \<rparr>, s1\<lparr> isFetching := False \<rparr>)
      | (Inl e, s1) \<Rightarrow>
          (\<lparr> success = False, data = [], totalRecords = 0, timestamp = None,
             fetch_result.error = Some (message e) \<rparr>, s1\<lparr> isFetching := False \<rparr>))"

subsection \<open>Predicates of the properties\<close>

text \<open>An exchange from which no record list can come: the request, the status, the JSON
  parse or the shape of the body fails.\<close>

definition exchangeFails :: "exchange \<Rightarrow> bool" where
  "exchangeFails x =
     (case x of
        Rejected m \<Rightarrow> True
      | Resolved status j \<Rightarrow>
          \<not> ok status \<or>
          (case j of Inl m \<Rightarrow> True
           | Inr b \<Rightarrow> (case b of BodyMalformed m \<Rightarrow> True | _ \<Rightarrow> False)))"

text \<open>A progress callback that never throws.\<close>

definition neverThrows :: "(progress_event \<Rightarrow> callback_effect) option \<Rightarrow> bool" where
  "neverThrows onProgress =
     (case onProgress of None \<Rightarrow> True | Some f \<Rightarrow> (\<forall>ev m. f ev \<noteq> Throws m))"

text \<open>
  A logged call of \<^verbatim>\<open>fetch\<close> that completed without error for the key: it returned a body
  for a zone and query type of that key, and the body has the shape the processing accepts.
\<close>

definition fetchedOk :: "string \<Rightarrow> string \<times> string \<times> (js_error + body) \<Rightarrow> bool" where
  "fetchedOk key x =
     (case x of (z, q, r) \<Rightarrow>
        key = cacheKey z q \<and>
        (case r of Inl e \<Rightarrow> False
         | Inr b \<Rightarrow> (case b of BodyMalformed m \<Rightarrow> False | _ \<Rightarrow> True)))"

text \<open>Every cache entry comes from a fetch that completed without error.\<close>

definition cacheJustified :: "state \<Rightarrow> bool" where
  "cacheJustified s = (\<forall>key a. cache s key = Some a \<longrightarrow> (\<exists>x \<in> set (requests s). fetchedOk key x))"

text \<open>Every cached array has been allocated.\<close>

definition heapOk :: "state \<Rightarrow> bool" where
  "heapOk s = (\<forall>key a. cache s key = Some a \<longrightarrow> a < nextRef s)"

subsection \<open>The order of the partitions\<close>

text \<open>
  The zone batches of the outer loop: consecutive groups of \<open>batchSize\<close> zones, the last
  one possibly shorter.
\<close>

function zoneBatches :: "string list \<Rightarrow> string list list" where
  "zoneBatches zones =
     (if zones = [] then [] else take batchSize zones # zoneBatches (drop batchSize zones))"
  by pat_completeness auto
termination
  by (relation "measure length") (auto simp: batchSize_def)

declare zoneBatches.simps [simp del]

text \<open>
  Zone batches outermost, query types within a batch, the zones of the batch innermost.
\<close>

definition partitionOrder :: "string list \<Rightarrow> string list \<Rightarrow> (string \<times> string) list" where
  "partitionOrder zones queryTypes =
     concat (map (\<lambda>zoneBatch. concat (map (\<lambda>q. map (\<lambda>z. (z, q)) zoneBatch) queryTypes))
       (zoneBatches zones))"


subsection \<open>The batch as a sequence of partition fetches\<close>

text \<open>
  What one task does after its fetch when the callback does not throw: the success event
  is passed to the callback, if there is one.
\<close>

definition reported ::
  "platform \<Rightarrow> (progress_event \<Rightarrow> callback_effect) option \<Rightarrow> nat \<Rightarrow> nat \<Rightarrow> string \<Rightarrow> string \<Rightarrow>
   nat \<Rightarrow> state \<Rightarrow> state" where
  "reported P onProgress totalRequests c zone' queryType' a s =
     (case onProgress of
        None \<Rightarrow> s
      | Some f \<Rightarrow>
          snd (callProgress f
                 \<lparr> completed = c, total = totalRequests,
                   percentage = roundPercent P c totalRequests,
                   zone = zone', queryType = queryType',
                   recordsFetched = Some (length (readArray s a)), error = None \<rparr> s))"

text \<open>
  Fetching a list of partitions one after the other: the returned arrays, the counter and
  the state at the end.
\<close>

fun fetchInOrder ::
  "platform \<Rightarrow> (progress_event \<Rightarrow> callback_effect) option \<Rightarrow> nat \<Rightarrow> nat option \<Rightarrow>
   (string \<times> string) list \<Rightarrow> nat \<times> state \<Rightarrow> nat list \<times> nat \<times> state" where
  "fetchInOrder P onProgress totalRequests signal [] cs = ([], cs)"
| "fetchInOrder P onProgress totalRequests signal ((z, q) # ps) (c, s) =
     (case fetchZoneData P z q signal s of
        (a, s1) \<Rightarrow>
          (case fetchInOrder P onProgress totalRequests signal ps
                  (c + 1, reported P onProgress totalRequests (c + 1) z q a s1) of
             (as, cs1) \<Rightarrow> (a # as, cs1)))"


section \<open>Sample inputs\<close>

text \<open>
  A date constructor for the concrete runs below. It reads the date-only form
  \<^verbatim>\<open>YYYY-MM-DD\<close> with a month from 01 to 12 and a day from 01 to 28 as an engine running in
  UTC does, and takes every other string as unrecognised. It stands for the engine at the
  inputs of the runs only.
\<close>

definition twoDigits :: "char \<Rightarrow> char \<Rightarrow> nat option" where
  "twoDigits a b =
     (case (digitOf a, digitOf b) of (Some x, Some y) \<Rightarrow> Some (10 * x + y) | _ \<Rightarrow> None)"

definition isoDate :: "string \<Rightarrow> jsdate" where
  "isoDate s =
     (case s of
        [y1, y2, y3, y4, d1, m1, m2, d2, g1, g2] \<Rightarrow>
          (if d1 = CHR ''-'' \<and> d2 = CHR ''-'' then
             (case (twoDigits y1 y2, twoDigits y3 y4, twoDigits m1 m2, twoDigits g1 g2) of
                (Some a, Some b, Some m, Some g) \<Rightarrow>
                  if 1 \<le> m \<and> m \<le> 12 \<and> 1 \<le> g \<and> g \<le> 28
                  then ValidDate (m - 1) (int (100 * a + b)) else InvalidDate
              | _ \<Rightarrow> InvalidDate)
           else InvalidDate)
      | _ \<Rightarrow> InvalidDate)"

definition emptyRow :: raw_row where
  "emptyRow = \<lparr> dvsn = None, sttnfrom = None, dmnddate = None, dmndtime = None, time = None,
     csnr = None, cnsg = None, dstn = None, indttype = None, indtunit = None, indt8w = None,
     ostgunit = None, ostg8w = None \<rparr>"

definition timeSample :: canonical where
  "timeSample =
     normalizeRow isoDate ''CR'' ''ODR_RK_OTSG'' (emptyRow\<lparr> dmndtime := Some ''14:30'' \<rparr>)"

text \<open>Thirteen records with thirteen distinct origins and one destination.\<close>

definition routeSample :: "string \<Rightarrow> canonical" where
  "routeSample s =
     normalizeRow isoDate ''CR'' ''ODR_RK_OTSG''
       (emptyRow\<lparr> sttnfrom := Some s, dstn := Some ''NDLS'' \<rparr>)"

definition thirteenRoutes :: "canonical list" where
  "thirteenRoutes =
     map routeSample [''HWH'', ''BCT'', ''MAS'', ''SBC'', ''PUNE'', ''ADI'', ''JP'', ''LKO'',
       ''PNBE'', ''BBS'', ''GHY'', ''CSMT'', ''SC'']"

text \<open>
  An engine for concrete runs: the date constructor above, exact rounding to the nearest
  integer (halves upwards) for the percentage, and a fixed clock.
\<close>

definition samplePlatform :: "(nat \<Rightarrow> string \<Rightarrow> string \<Rightarrow> exchange) \<Rightarrow> platform" where
  "samplePlatform net =
     \<lparr> network = net, newDate = isoDate,
       roundPercent = (\<lambda>c t. int ((200 * c + t) div (2 * t))),
       now = ''2024-01-01T00:00:00.000Z'' \<rparr>"

text \<open>An upstream that answers every request with one row naming its zone.\<close>

definition sampleRow :: "string \<Rightarrow> raw_row" where
  "sampleRow z = emptyRow\<lparr> dvsn := Some z, indtunit := Some ''2'' \<rparr>"

definition healthyNetwork :: "nat \<Rightarrow> string \<Rightarrow> string \<Rightarrow> exchange" where
  "healthyNetwork n z q = Resolved 200 (Inr (BodyRows [sampleRow z]))"

text \<open>The same upstream, except that every request for zone ER, outstanding demands, fails.\<close>

definition failingNetwork :: "nat \<Rightarrow> string \<Rightarrow> string \<Rightarrow> exchange" where
  "failingNetwork n z q =
     (if z = ''ER'' \<and> q = ''ODR_RK_OTSG'' then Rejected ''Failed to fetch''
      else Resolved 200 (Inr (BodyRows [sampleRow z])))"

definition listener :: "(progress_event \<Rightarrow> callback_effect) option" where
  "listener = Some (\<lambda>ev. Returns)"

text \<open>A progress callback that calls \<^verbatim>\<open>cancelFetch\<close> when the first partition has completed.\<close>

definition cancelAfterFirst :: "(progress_event \<Rightarrow> callback_effect) option" where
  "cancelAfterFirst = Some (\<lambda>ev. if completed ev = 1 then CallsCancel else Returns)"

text \<open>An upstream that is down: every request is rejected.\<close>

definition deadNetwork :: "nat \<Rightarrow> string \<Rightarrow> string \<Rightarrow> exchange" where
  "deadNetwork n z q = Rejected ''Failed to fetch''"

text \<open>
  A service that has fetched one partition before: zone ER, outstanding demands, is in
  the cache.
\<close>

definition warmService :: state where
  "warmService =
     snd (fetchZoneData (samplePlatform healthyNetwork) ''ER'' ''ODR_RK_OTSG'' None newService)"



definition twoZones :: "string list" where
  "twoZones = [''CR'', ''ER'']"


definition twoQueries :: "string list" where
  "twoQueries = [''MATURED_INDENTS'', ''ODR_RK_OTSG'']"

section \<open>Properties of the normalizer\<close>

subsection \<open>Decimal numerals\<close>













subsection \<open>Unit fields\<close>




subsection \<open>Date fields\<close>

text \<open>
  C6, as the code has it. A row is never rejected for its date: the normalizer keeps
  every row whose division is not \<^verbatim>\<open>TOTAL\<close>. When the demand date is absent or empty the
  parsed date, the month and the year are all null. When it is a non-empty text that the
  engine does not recognise, the parsed date is an invalid \<^verbatim>\<open>Date\<close> object and the month
  and the year are \<^verbatim>\<open>NaN\<close>; when the engine recognises it they are the date's month and
  year.
\<close>

theorem normalizeRow_dates:
  "(\<not> truthy (dmnddate row) \<longrightarrow>
      demandDateObj (normalizeRow nd z q row) = None
      \<and> month (normalizeRow nd z q row) = None
      \<and> year (normalizeRow nd z q row) = None)
   \<and> (dmnddate row = Some d \<and> d \<noteq> [] \<and> nd d = InvalidDate \<longrightarrow>
      demandDateObj (normalizeRow nd z q row) = Some InvalidDate
      \<and> month (normalizeRow nd z q row) = Some NaN
      \<and> year (normalizeRow nd z q row) = Some NaN)
   \<and> (dmnddate row = Some d \<and> d \<noteq> [] \<and> nd d = ValidDate m y \<longrightarrow>
      demandDateObj (normalizeRow nd z q row) = Some (ValidDate m y)
      \<and> month (normalizeRow nd z q row) = Some (Num (int m))
      \<and> year (normalizeRow nd z q row) = Some (Num y))
   \<and> length (processRows nd z q rows) = length (filter (\<lambda>r. dvsn r \<noteq> Some ''TOTAL'') rows)
   \<and> (dvsn row \<noteq> Some ''TOTAL'' \<longrightarrow> processRows nd z q [row] = [normalizeRow nd z q row])"
  by (auto simp: normalizeRow_def raw_row.defs truthy_def processRows_def split: option.splits)

theorem normalizeRow_dates_witness:
  "\<not> truthy (dmnddate emptyRow)
   \<and> month (normalizeRow isoDate ''CR'' ''ODR_RK_OTSG'' emptyRow) = None
   \<and> isoDate ''32/13/2024'' = InvalidDate
   \<and> month (normalizeRow isoDate ''CR'' ''ODR_RK_OTSG'' (emptyRow\<lparr> dmnddate := Some ''32/13/2024'' \<rparr>)) = Some NaN
   \<and> isoDate ''2024-03-15'' = ValidDate 2 2024
   \<and> year (normalizeRow isoDate ''CR'' ''ODR_RK_OTSG'' (emptyRow\<lparr> dmnddate := Some ''2024-03-15'' \<rparr>)) = Some (Num 2024)
   \<and> dvsn (emptyRow\<lparr> dmnddate := Some ''32/13/2024'' \<rparr>) \<noteq> Some ''TOTAL''
   \<and> length (processRows isoDate ''CR'' ''ODR_RK_OTSG'' [emptyRow\<lparr> dmnddate := Some ''32/13/2024'' \<rparr>]) = 1"
proof -
  have a: "\<not> truthy (dmnddate emptyRow)" by code_simp
  have b: "isoDate ''32/13/2024'' = InvalidDate" by code_simp
  have c: "isoDate ''2024-03-15'' = ValidDate 2 2024" by code_simp
  have d: "dmnddate (emptyRow\<lparr> dmnddate := Some ''32/13/2024'' \<rparr>) = Some ''32/13/2024''"
    "dmnddate (emptyRow\<lparr> dmnddate := Some ''2024-03-15'' \<rparr>) = Some ''2024-03-15''"
    "dvsn (emptyRow\<lparr> dmnddate := Some ''32/13/2024'' \<rparr>) \<noteq> Some ''TOTAL''"
    by (simp_all add: emptyRow_def)
  show ?thesis
    using a b c d
      normalizeRow_dates [of emptyRow isoDate "''CR''" "''ODR_RK_OTSG''" "''x''" 0 0 "[]"]
      normalizeRow_dates [of "emptyRow\<lparr> dmnddate := Some ''32/13/2024'' \<rparr>" isoDate "''CR''" "''ODR_RK_OTSG''" "''32/13/2024''" 0 0 "[]"]
      normalizeRow_dates [of "emptyRow\<lparr> dmnddate := Some ''2024-03-15'' \<rparr>" isoDate "''CR''" "''ODR_RK_OTSG''" "''2024-03-15''" 2 2024 "[]"]
    by simp
qed

text \<open>
  The claim of C6 as stated fails on an unparseable date: none of the three fields is null.
\<close>

theorem invalid_date_not_null_counterexample:
  "dmnddate (emptyRow\<lparr> dmnddate := Some ''not a date'' \<rparr>) = Some ''not a date''
   \<and> isoDate ''not a date'' = InvalidDate
   \<and> demandDateObj (normalizeRow isoDate ''CR'' ''ODR_RK_OTSG'' (emptyRow\<lparr> dmnddate := Some ''not a date'' \<rparr>)) = Some InvalidDate
   \<and> month (normalizeRow isoDate ''CR'' ''ODR_RK_OTSG'' (emptyRow\<lparr> dmnddate := Some ''not a date'' \<rparr>)) = Some NaN
   \<and> year (normalizeRow isoDate ''CR'' ''ODR_RK_OTSG'' (emptyRow\<lparr> dmnddate := Some ''not a date'' \<rparr>)) = Some NaN"
  by code_simp

section \<open>Properties of the reducers\<close>

subsection \<open>Map helpers\<close>

lemma mapModify_keys: "map fst (mapModify k f m) = map fst m"
  by (induction m) (auto simp: mapModify_def)

lemma mapModify_length: "length (mapModify k f m) = length m"
  by (simp add: mapModify_def)

lemma mapHas_keys: "mapHas k m = (k \<in> set (map fst m))"
  by (simp add: mapHas_def map_of_eq_None_iff)

lemma mapSet_keys:
  "map fst (mapSet k v m) = (if k \<in> set (map fst m) then map fst m else map fst m @ [k])"
  by (simp add: mapSet_def mapHas_keys mapModify_keys)

lemma initHourMap_general:
  "foldl (\<lambda>m i. mapSet (int i) (g i) m) [] [0..<n] = map (\<lambda>i. (int i, g i)) [0..<n]"
proof (induction n)
  case 0
  show ?case by simp
next
  case (Suc n)
  have "\<not> mapHas (int n) (map (\<lambda>i. (int i, g i)) [0..<n])"
    by (auto simp: mapHas_keys)
  with Suc show ?case by (simp add: mapSet_def)
qed

lemma initHourMap_eq:
  "initHourMap = map (\<lambda>i. (int i, \<lparr> hour = hourLabel i, hour_bucket.orders = 0 \<rparr>)) [0..<24]"
  unfolding initHourMap_def by (rule initHourMap_general)

lemma hourStep_keys: "map fst (hourStep r m) = map fst m"
  by (simp add: hourStep_def mapModify_keys split: option.splits jsnum.splits)

lemma hourStep_length: "length (hourStep r m) = length m"
  using hourStep_keys [of r m] by (metis length_map)

lemma hourStep_nth:
  assumes "i < length m" and "0 \<le> fst (m ! i)" and "fst (m ! i) < 24"
  shows "hour (snd (hourStep r m ! i)) = hour (snd (m ! i))"
    and "hour_bucket.orders (snd (hourStep r m ! i)) =
         hour_bucket.orders (snd (m ! i)) + (if parsedHour r = Some (Num (fst (m ! i))) then 1 else 0)"
  using assms
  by (auto simp: hourStep_def mapModify_def split: option.splits jsnum.splits prod.splits)

lemma foldl_hourStep:
  assumes "\<forall>k \<in> set (map fst m). 0 \<le> k \<and> k < 24"
  shows "map fst (foldl (\<lambda>m r. hourStep r m) m rs) = map fst m \<and>
         (\<forall>i < length m.
            hour (snd (foldl (\<lambda>m r. hourStep r m) m rs ! i)) = hour (snd (m ! i)) \<and>
            hour_bucket.orders (snd (foldl (\<lambda>m r. hourStep r m) m rs ! i)) =
              hour_bucket.orders (snd (m ! i)) +
              length (filter (\<lambda>r. parsedHour r = Some (Num (fst (m ! i)))) rs))"
  using assms
proof (induction rs arbitrary: m)
  case Nil
  show ?case by simp
next
  case (Cons r rs)
  let ?m = "hourStep r m"
  have keys: "map fst ?m = map fst m" by (rule hourStep_keys)
  have len: "length ?m = length m" by (rule hourStep_length)
  from Cons.prems keys have rng: "\<forall>k \<in> set (map fst ?m). 0 \<le> k \<and> k < 24" by simp
  note IH = Cons.IH [OF rng]
  have fsteq: "\<And>i. i < length m \<Longrightarrow> fst (?m ! i) = fst (m ! i)"
    using keys len by (metis nth_map)
  have inr: "\<And>i. i < length m \<Longrightarrow> 0 \<le> fst (m ! i) \<and> fst (m ! i) < 24"
    using Cons.prems by (metis length_map nth_map nth_mem)
  show ?case
  proof (intro conjI allI impI)
    show "map fst (foldl (\<lambda>m r. hourStep r m) m (r # rs)) = map fst m"
      using IH keys by simp
  next
    fix i assume i: "i < length m"
    then have i': "i < length ?m" using len by simp
    from IH i' have a: "hour (snd (foldl (\<lambda>m r. hourStep r m) ?m rs ! i)) = hour (snd (?m ! i))"
      by blast
    with hourStep_nth(1) [OF i] inr [OF i]
    show "hour (snd (foldl (\<lambda>m r. hourStep r m) m (r # rs) ! i)) = hour (snd (m ! i))"
      by simp
  next
    fix i assume i: "i < length m"
    then have i': "i < length ?m" using len by simp
    from IH i' have b: "hour_bucket.orders (snd (foldl (\<lambda>m r. hourStep r m) ?m rs ! i)) =
              hour_bucket.orders (snd (?m ! i)) +
              length (filter (\<lambda>r. parsedHour r = Some (Num (fst (?m ! i)))) rs)"
      by blast
    have c: "hour_bucket.orders (snd (?m ! i)) =
         hour_bucket.orders (snd (m ! i)) + (if parsedHour r = Some (Num (fst (m ! i))) then 1 else 0)"
      using hourStep_nth(2) [OF i] inr [OF i] by blast
    show "hour_bucket.orders (snd (foldl (\<lambda>m r. hourStep r m) m (r # rs) ! i)) =
              hour_bucket.orders (snd (m ! i)) +
              length (filter (\<lambda>r. parsedHour r = Some (Num (fst (m ! i)))) (r # rs))"
      using b c fsteq [OF i] by simp
  qed
qed

lemma hourLabels: "map hourLabel [0..<24] =
  [''00:00'', ''01:00'', ''02:00'', ''03:00'', ''04:00'', ''05:00'',
  ''06:00'', ''07:00'', ''08:00'', ''09:00'', ''10:00'', ''11:00'',
  ''12:00'', ''13:00'', ''14:00'', ''15:00'', ''16:00'', ''17:00'',
  ''18:00'', ''19:00'', ''20:00'', ''21:00'', ''22:00'', ''23:00'']"
  by code_simp

text \<open>
  C8. For every record list, the empty one included, \<open>getTimeDistribution\<close> returns
  exactly 24 buckets, labelled with the hours 00:00 to 23:00 in ascending order, and the
  bucket of hour \<open>h\<close> counts the records whose parsed hour is \<open>h\<close>; an hour that matches
  no record carries the count 0.
\<close>

theorem getTimeDistribution_24:
  "length (getTimeDistribution rs) = 24
   \<and> map hour (getTimeDistribution rs) =
       [''00:00'', ''01:00'', ''02:00'', ''03:00'', ''04:00'', ''05:00'',
        ''06:00'', ''07:00'', ''08:00'', ''09:00'', ''10:00'', ''11:00'',
        ''12:00'', ''13:00'', ''14:00'', ''15:00'', ''16:00'', ''17:00'',
        ''18:00'', ''19:00'', ''20:00'', ''21:00'', ''22:00'', ''23:00'']
   \<and> (\<forall>h < 24. hour_bucket.orders (getTimeDistribution rs ! h) =
         length (filter (\<lambda>r. parsedHour r = Some (Num (int h))) rs))"
proof -
  let ?m = "foldl (\<lambda>m r. hourStep r m) initHourMap rs"
  have rng: "\<forall>k \<in> set (map fst initHourMap). 0 \<le> k \<and> k < 24"
    by (auto simp: initHourMap_eq)
  note F = foldl_hourStep [OF rng, of rs]
  have len0: "length initHourMap = 24" by (simp add: initHourMap_eq)
  from F have keys: "map fst ?m = map fst initHourMap" by blast
  then have len: "length ?m = 24" using len0 by (metis length_map)
  have nth0: "\<And>i. i < 24 \<Longrightarrow> initHourMap ! i = (int i, \<lparr> hour = hourLabel i, hour_bucket.orders = 0 \<rparr>)"
    by (simp add: initHourMap_eq)
  have 1: "length (getTimeDistribution rs) = 24"
    by (simp add: getTimeDistribution_def mapValues_def len)
  have 2: "map hour (getTimeDistribution rs) = map hourLabel [0..<24]"
  proof (rule nth_equalityI)
    show "length (map hour (getTimeDistribution rs)) = length (map hourLabel [0..<24])"
      using 1 by simp
  next
    fix i assume "i < length (map hour (getTimeDistribution rs))"
    then have i: "i < 24" using 1 by simp
    then have "hour (snd (?m ! i)) = hour (snd (initHourMap ! i))"
      using F len0 by simp
    with i show "map hour (getTimeDistribution rs) ! i = map hourLabel [0..<24] ! i"
      by (simp add: getTimeDistribution_def mapValues_def len nth0)
  qed
  have 3: "\<forall>h < 24. hour_bucket.orders (getTimeDistribution rs ! h) =
         length (filter (\<lambda>r. parsedHour r = Some (Num (int h))) rs)"
  proof (intro allI impI)
    fix h :: nat assume h: "h < 24"
    then have "hour_bucket.orders (snd (?m ! h)) =
              hour_bucket.orders (snd (initHourMap ! h)) +
              length (filter (\<lambda>r. parsedHour r = Some (Num (fst (initHourMap ! h)))) rs)"
      using F len0 by simp
    with h show "hour_bucket.orders (getTimeDistribution rs ! h) =
         length (filter (\<lambda>r. parsedHour r = Some (Num (int h))) rs)"
      by (simp add: getTimeDistribution_def mapValues_def len nth0)
  qed
  from 2 have lab: "map hour (getTimeDistribution rs) =
       [''00:00'', ''01:00'', ''02:00'', ''03:00'', ''04:00'', ''05:00'',
        ''06:00'', ''07:00'', ''08:00'', ''09:00'', ''10:00'', ''11:00'',
        ''12:00'', ''13:00'', ''14:00'', ''15:00'', ''16:00'', ''17:00'',
        ''18:00'', ''19:00'', ''20:00'', ''21:00'', ''22:00'', ''23:00'']"
    by (simp only: hourLabels)
  from 1 lab 3 show ?thesis by blast
qed


theorem getTimeDistribution_24_witness:
  "length (getTimeDistribution [timeSample]) = 24
   \<and> hour_bucket.orders (getTimeDistribution [timeSample] ! 14) = 1
   \<and> hour_bucket.orders (getTimeDistribution [timeSample] ! 3) = 0
   \<and> hour_bucket.orders (getTimeDistribution [] ! 14) = 0"
proof -
  have ph: "parsedHour timeSample = Some (Num 14)"
    by code_simp
  show ?thesis
    using getTimeDistribution_24 [of "[timeSample]"] getTimeDistribution_24 [of "[]"] ph
    by simp
qed

subsection \<open>Truncation limits\<close>

lemma groupStep_keys:
  "map fst (mapModify k f (if \<not> mapHas k m then mapSet k v m else m)) =
     (if k \<in> set (map fst m) then map fst m else map fst m @ [k])"
  by (simp add: mapModify_keys mapSet_keys mapHas_keys)

lemma routeStep_keys:
  "map fst (routeStep r m) =
     (if routeKey r \<in> set (map fst m) then map fst m else map fst m @ [routeKey r])"
  unfolding routeStep_def Let_def by (rule groupStep_keys)

lemma foldl_routeStep_keys:
  "distinct (map fst m) \<Longrightarrow>
   distinct (map fst (foldl (\<lambda>m r. routeStep r m) m rs)) \<and>
   set (map fst (foldl (\<lambda>m r. routeStep r m) m rs)) = set (map fst m) \<union> routeKey ` set rs"
proof (induction rs arbitrary: m)
  case Nil
  then show ?case by simp
next
  case (Cons r rs)
  have d: "distinct (map fst (routeStep r m))"
    using Cons.prems by (simp add: routeStep_keys)
  have s: "set (map fst (routeStep r m)) = insert (routeKey r) (set (map fst m))"
    by (auto simp: routeStep_keys)
  from Cons.IH [OF d] s show ?case by auto
qed

lemma route_bucket_count:
  "length (mapValues (foldl (\<lambda>m r. routeStep r m) [] rs)) = card (routeKey ` set rs)"
proof -
  let ?m = "foldl (\<lambda>m r. routeStep r m) [] rs"
  have "distinct (map fst ?m) \<and> set (map fst ?m) = routeKey ` set rs"
    using foldl_routeStep_keys [of "[]" rs] by simp
  then have "card (routeKey ` set rs) = length (map fst ?m)"
    using distinct_card by metis
  then show ?thesis by (simp add: mapValues_def)
qed

lemma length_sliceTo: "0 \<le> n \<Longrightarrow> length (sliceTo n xs) = min (nat n) (length xs)"
  by (simp add: sliceTo_def min_def)

text \<open>
  C7, as the code has it. The truncation limit of every truncating reducer is a
  parameter. When the caller omits it, route analysis uses 15, and top consignors, top
  destinations, rake types and consignee analysis use 10. With a limit \<open>n\<close> that is not
  negative, route analysis returns \<open>n\<close> buckets, or all of them when there are fewer
  distinct routes.
\<close>

theorem reducer_limits:
  "getRouteAnalysis rs None = getRouteAnalysis rs (Some 15)
   \<and> getTopConsignors rs None = getTopConsignors rs (Some 10)
   \<and> getTopDestinations rs None = getTopDestinations rs (Some 10)
   \<and> aggregateByRakeType rs None = aggregateByRakeType rs (Some 10)
   \<and> getConsigneeAnalysis rs None = getConsigneeAnalysis rs (Some 10)
   \<and> (0 \<le> n \<longrightarrow>
        length (getRouteAnalysis rs (Some n)) = min (nat n) (card (routeKey ` set rs)))"
  by (simp add: getRouteAnalysis_def getTopConsignors_def getTopDestinations_def
      aggregateByRakeType_def getConsigneeAnalysis_def length_sliceTo sortDescending_def
      route_bucket_count)

theorem reducer_limits_witness:
  "(0::int) \<le> 12
   \<and> length (getRouteAnalysis thirteenRoutes (Some 12)) = 12
   \<and> length (getRouteAnalysis thirteenRoutes (Some 20)) = 13"
proof -
  have c: "card (routeKey ` set thirteenRoutes) = 13" by code_simp
  show ?thesis
    using c reducer_limits [of thirteenRoutes 12] reducer_limits [of thirteenRoutes 20]
    by simp
qed

text \<open>
  The claim of C7 as stated fails on thirteen distinct routes: with no limit supplied all
  thirteen buckets are returned, one more than a default of 12 allows.
\<close>

theorem route_default_counterexample:
  "length (getRouteAnalysis thirteenRoutes None) = 13
   \<and> length (getRouteAnalysis thirteenRoutes (Some 12)) = 12
   \<and> getRouteAnalysis thirteenRoutes None \<noteq> getRouteAnalysis thirteenRoutes (Some 12)"
proof -
  have a: "length (getRouteAnalysis thirteenRoutes None) = 13" by code_simp
  have b: "length (getRouteAnalysis thirteenRoutes (Some 12)) = 12" by code_simp
  from a b show ?thesis by auto
qed

section \<open>Properties of the fetch service\<close>

subsection \<open>One fetch with retries\<close>

lemma attemptFetch_state:
  "attemptFetch P z q sg s = (r, s') \<Longrightarrow> s' = s\<lparr> requests := requests s @ [(z, q, r)] \<rparr>"
  by (auto simp: attemptFetch_def Let_def)

lemma signalAborted_requests [simp]:
  "signalAborted sg (s\<lparr> requests := x \<rparr>) = signalAborted sg s"
  by (simp add: signalAborted_def split: option.splits)

lemma attemptFetch_aborted:
  "signalAborted sg s \<Longrightarrow>
   attemptFetch P z q sg s = (Inl AbortError, s\<lparr> requests := requests s @ [(z, q, Inl AbortError)] \<rparr>)"
  by (simp add: attemptFetch_def Let_def)

lemma fetchWithRetry_log:
  "fetchWithRetry P z q sg n s = (r, s') \<Longrightarrow>
   \<exists>extra. s' = s\<lparr> requests := requests s @ extra @ [(z, q, r)] \<rparr> \<and>
           (\<forall>x \<in> set extra. \<exists>e. x = (z, q, Inl e))"
proof (induction P z q sg n s arbitrary: r s' rule: fetchWithRetry.induct)
  case (1 P z q sg n s)
  obtain r1 s1 where a: "attemptFetch P z q sg s = (r1, s1)" by (cases "attemptFetch P z q sg s")
  then have s1: "s1 = s\<lparr> requests := requests s @ [(z, q, r1)] \<rparr>" by (rule attemptFetch_state)
  show ?case
  proof (cases r1)
    case (Inr b)
    with a "1.prems" have "r = Inr b" "s' = s1" by (simp_all add: fetchWithRetry.simps)
    with s1 Inr show ?thesis by (intro exI [of _ "[]"]) simp
  next
    case (Inl e)
    show ?thesis
    proof (cases "n < retryAttempts")
      case False
      with a Inl "1.prems" have "r = Inl e" "s' = s1" by (simp_all add: fetchWithRetry.simps)
      with s1 Inl show ?thesis by (intro exI [of _ "[]"]) simp
    next
      case True
      with a Inl "1.prems" have rec: "fetchWithRetry P z q sg (n + 1) s1 = (r, s')"
        by (simp add: fetchWithRetry.simps)
      from "1.IH" [OF a [symmetric] Inl True rec]
      obtain extra where e: "s' = s1\<lparr> requests := requests s1 @ extra @ [(z, q, r)] \<rparr>"
        and f: "\<forall>x \<in> set extra. \<exists>e. x = (z, q, Inl e)" by blast
      from e s1 have "s' = s\<lparr> requests := requests s @ ((z, q, r1) # extra) @ [(z, q, r)] \<rparr>"
        by simp
      moreover from f Inl have "\<forall>x \<in> set ((z, q, r1) # extra). \<exists>e. x = (z, q, Inl e)" by simp
      ultimately show ?thesis by blast
    qed
  qed
qed


lemma fetchZoneData_hit:
  "cache s (cacheKey z q) = Some a \<Longrightarrow>
   fetchZoneData P z q sg s = (a, s\<lparr> invoked := invoked s @ [(z, q)] \<rparr>)"
  by (simp add: fetchZoneData_def Let_def)

lemma fetchZoneData_miss:
  assumes miss: "cache s (cacheKey z q) = None"
    and run: "fetchZoneData P z q sg s = (a, s')"
  shows "\<exists>extra r xs stored.
           a = nextRef s \<and>
           s' = s\<lparr> invoked := invoked s @ [(z, q)],
                  requests := requests s @ extra @ [(z, q, r)],
                  heap := (heap s)(nextRef s \<mapsto> xs),
                  nextRef := nextRef s + 1,
                  cache := (if stored then (cache s)(cacheKey z q \<mapsto> nextRef s) else cache s) \<rparr> \<and>
           (\<forall>x \<in> set extra. \<exists>e. x = (z, q, Inl e)) \<and>
           (stored \<longrightarrow> (\<exists>b. r = Inr b \<and> processResponse P z q b = Inr xs)) \<and>
           (\<not> stored \<longrightarrow> xs = [] \<and>
              ((\<exists>e. r = Inl e) \<or> (\<exists>b e. r = Inr b \<and> processResponse P z q b = Inl e)))"
proof -
  let ?s0 = "s\<lparr> invoked := invoked s @ [(z, q)] \<rparr>"
  obtain r s1 where fw: "fetchWithRetry P z q sg 1 ?s0 = (r, s1)"
    by (cases "fetchWithRetry P z q sg 1 ?s0")
  from fetchWithRetry_log [OF fw] obtain extra where
    s1: "s1 = ?s0\<lparr> requests := requests ?s0 @ extra @ [(z, q, r)] \<rparr>"
    and ex: "\<forall>x \<in> set extra. \<exists>e. x = (z, q, Inl e)" by blast
  show ?thesis
  proof (cases r)
    case (Inl e)
    with miss run fw s1 have "a = nextRef s"
      "s' = s\<lparr> invoked := invoked s @ [(z, q)],
                  requests := requests s @ extra @ [(z, q, r)],
                  heap := (heap s)(nextRef s \<mapsto> []),
                  nextRef := nextRef s + 1,
                  cache := (if False then (cache s)(cacheKey z q \<mapsto> nextRef s) else cache s) \<rparr>"
      by (auto simp: fetchZoneData_def Let_def newArray_def)
    with ex Inl show ?thesis by blast
  next
    case (Inr b)
    show ?thesis
    proof (cases "processResponse P z q b")
      case (Inl e)
      with Inr miss run fw s1 have "a = nextRef s"
        "s' = s\<lparr> invoked := invoked s @ [(z, q)],
                  requests := requests s @ extra @ [(z, q, r)],
                  heap := (heap s)(nextRef s \<mapsto> []),
                  nextRef := nextRef s + 1,
                  cache := (if False then (cache s)(cacheKey z q \<mapsto> nextRef s) else cache s) \<rparr>"
        by (auto simp: fetchZoneData_def Let_def newArray_def)
      with ex Inl Inr show ?thesis by blast
    next
      case (Inr xs)
      with \<open>r = Inr b\<close> miss run fw s1 have "a = nextRef s"
        "s' = s\<lparr> invoked := invoked s @ [(z, q)],
                  requests := requests s @ extra @ [(z, q, r)],
                  heap := (heap s)(nextRef s \<mapsto> xs),
                  nextRef := nextRef s + 1,
                  cache := (if True then (cache s)(cacheKey z q \<mapsto> nextRef s) else cache s) \<rparr>"
        by (auto simp: fetchZoneData_def Let_def newArray_def)
      with ex Inr \<open>r = Inr b\<close> show ?thesis by blast
    qed
  qed
qed

lemma fetchZoneData_frame:
  assumes "fetchZoneData P z q sg s = (a, s')"
  shows "controllers s' = controllers s \<and> abortController s' = abortController s \<and>
    isFetching s' = isFetching s \<and> events s' = events s \<and>
    invoked s' = invoked s @ [(z, q)] \<and>
    (\<exists>extra. requests s' = requests s @ extra) \<and>
    nextRef s \<le> nextRef s' \<and>
    (\<forall>b < nextRef s. heap s' b = heap s b)"
proof (cases "cache s (cacheKey z q)")
  case None
  from fetchZoneData_miss [OF None assms] obtain extra r xs stored where
    "s' = s\<lparr> invoked := invoked s @ [(z, q)],
                requests := requests s @ extra @ [(z, q, r)],
                heap := (heap s)(nextRef s \<mapsto> xs),
                nextRef := nextRef s + 1,
                cache := (if stored then (cache s)(cacheKey z q \<mapsto> nextRef s) else cache s) \<rparr>"
    by blast
  then show ?thesis by simp
next
  case (Some b)
  from fetchZoneData_hit [OF Some] assms have "s' = s\<lparr> invoked := invoked s @ [(z, q)] \<rparr>"
    by simp
  then show ?thesis by simp
qed

lemma fetchZoneData_heapOk:
  assumes "fetchZoneData P z q sg s = (a, s')" and "heapOk s"
  shows "heapOk s' \<and> a < nextRef s'"
proof (cases "cache s (cacheKey z q)")
  case None
  from fetchZoneData_miss [OF None assms(1)] obtain extra r xs stored where
    "a = nextRef s" "s' = s\<lparr> invoked := invoked s @ [(z, q)],
                requests := requests s @ extra @ [(z, q, r)],
                heap := (heap s)(nextRef s \<mapsto> xs),
                nextRef := nextRef s + 1,
                cache := (if stored then (cache s)(cacheKey z q \<mapsto> nextRef s) else cache s) \<rparr>"
    by blast
  with assms(2) show ?thesis
    by (auto simp: heapOk_def less_Suc_eq)
next
  case (Some b)
  from fetchZoneData_hit [OF Some] assms(1) have "a = b" "s' = s\<lparr> invoked := invoked s @ [(z, q)] \<rparr>"
    by simp_all
  with assms(2) Some show ?thesis
    by (auto simp: heapOk_def)
qed

lemma fetchZoneData_cacheJustified:
  assumes "fetchZoneData P z q sg s = (a, s')" and "cacheJustified s"
  shows "cacheJustified s'"
proof (cases "cache s (cacheKey z q)")
  case None
  from fetchZoneData_miss [OF None assms(1)] obtain extra r xs stored where
    s': "s' = s\<lparr> invoked := invoked s @ [(z, q)],
                  requests := requests s @ extra @ [(z, q, r)],
                  heap := (heap s)(nextRef s \<mapsto> xs),
                  nextRef := nextRef s + 1,
                  cache := (if stored then (cache s)(cacheKey z q \<mapsto> nextRef s) else cache s) \<rparr>"
    and st: "stored \<longrightarrow> (\<exists>b. r = Inr b \<and> processResponse P z q b = Inr xs)"
    by blast
  have "fetchedOk (cacheKey z q) (z, q, r)" if stored
  proof -
    from that st obtain b where b: "r = Inr b" "processResponse P z q b = Inr xs" by blast
    then show ?thesis by (cases b) (simp_all add: fetchedOk_def processResponse_def)
  qed
  with assms(2) s' show ?thesis
    by (auto simp: cacheJustified_def split: if_splits)
next
  case (Some b)
  from fetchZoneData_hit [OF Some] assms(1) have "s' = s\<lparr> invoked := invoked s @ [(z, q)] \<rparr>"
    by simp
  with assms(2) show ?thesis by (simp add: cacheJustified_def)
qed

subsection \<open>Callback and cancellation\<close>

lemma signalAborted_cancelFetch:
  assumes ab: "signalAborted sg s"
  shows "signalAborted sg (cancelFetch s)"
proof (cases "abortController s")
  case None
  with ab show ?thesis by (simp add: cancelFetch_def)
next
  case (Some c)
  show ?thesis
  proof (cases "c < length (controllers s)")
    case True
    with ab Some show ?thesis
      by (auto simp: signalAborted_def cancelFetch_def nth_list_update split: option.splits)
  next
    case False
    with ab Some show ?thesis
      by (auto simp: signalAborted_def cancelFetch_def list_update_beyond split: option.splits)
  qed
qed

lemma cancelFetch_frame:
  "cache (cancelFetch s) = cache s \<and> heap (cancelFetch s) = heap s \<and>
   nextRef (cancelFetch s) = nextRef s \<and> requests (cancelFetch s) = requests s \<and>
   invoked (cancelFetch s) = invoked s \<and> events (cancelFetch s) = events s \<and>
   abortController (cancelFetch s) = abortController s"
  by (simp add: cancelFetch_def split: option.splits)

lemma callProgress_frame:
  assumes "callProgress f ev s = (m, s')"
  shows "cache s' = cache s \<and> heap s' = heap s \<and> nextRef s' = nextRef s \<and>
    requests s' = requests s \<and> invoked s' = invoked s \<and> events s' = events s @ [ev] \<and>
    abortController s' = abortController s \<and>
    (signalAborted sg s \<longrightarrow> signalAborted sg s')"
proof -
  have ab: "signalAborted sg s \<Longrightarrow> signalAborted sg (cancelFetch (s\<lparr> events := events s @ [ev] \<rparr>))"
    by (rule signalAborted_cancelFetch) (simp add: signalAborted_def split: option.splits)
  have ab2: "signalAborted sg s \<Longrightarrow> signalAborted sg (s\<lparr> events := events s @ [ev] \<rparr>)"
    by (simp add: signalAborted_def split: option.splits)
  from assms show ?thesis
    using cancelFetch_frame [of "s\<lparr> events := events s @ [ev] \<rparr>"] ab ab2
    by (cases "f ev") (auto simp: callProgress_def Let_def)
qed

lemma reported_frame:
  "cache (reported P cb t c z q a s) = cache s \<and> heap (reported P cb t c z q a s) = heap s \<and>
   nextRef (reported P cb t c z q a s) = nextRef s \<and>
   requests (reported P cb t c z q a s) = requests s \<and>
   invoked (reported P cb t c z q a s) = invoked s \<and>
   abortController (reported P cb t c z q a s) = abortController s \<and>
   (signalAborted sg s \<longrightarrow> signalAborted sg (reported P cb t c z q a s))"
proof (cases cb)
  case None
  then show ?thesis by (simp add: reported_def)
next
  case (Some f)
  let ?ev = "\<lparr> completed = c, total = t, percentage = roundPercent P c t,
                zone = z, queryType = q,
                recordsFetched = Some (length (readArray s a)), error = None \<rparr>"
  obtain m s' where cp: "callProgress f ?ev s = (m, s')" by (cases "callProgress f ?ev s")
  from callProgress_frame [OF cp, of sg] Some cp show ?thesis
    by (simp add: reported_def)
qed

lemma callProgress_neverThrows:
  "\<forall>ev m. f ev \<noteq> Throws m \<Longrightarrow> fst (callProgress f ev s) = None"
  by (cases "f ev") (auto simp: callProgress_def Let_def)

lemma partitionTask_neverThrows:
  assumes "neverThrows cb"
  shows "partitionTask P cb t sg q z (c, s) =
     (case fetchZoneData P z q sg s of
        (a, s1) \<Rightarrow> (Inr a, c + 1, reported P cb t (c + 1) z q a s1))"
proof -
  obtain a s1 where fz: "fetchZoneData P z q sg s = (a, s1)"
    by (cases "fetchZoneData P z q sg s")
  show ?thesis
  proof (cases cb)
    case None
    with fz show ?thesis by (simp add: partitionTask_def reported_def)
  next
    case (Some f)
    with assms have nt: "\<forall>ev m. f ev \<noteq> Throws m" by (simp add: neverThrows_def)
    let ?ev = "\<lparr> completed = c + 1, total = t, percentage = roundPercent P (c + 1) t,
                zone = z, queryType = q,
                recordsFetched = Some (length (readArray s1 a)), error = None \<rparr>"
    obtain m s2 where cp: "callProgress f ?ev s1 = (m, s2)" by (cases "callProgress f ?ev s1")
    with callProgress_neverThrows [OF nt, of ?ev s1] have "m = None" by simp
    with fz Some cp show ?thesis
      by (simp add: partitionTask_def reported_def Let_def)
  qed
qed

subsection \<open>The batch as a sequence\<close>

lemma promiseAll_Inr: "promiseAll (map Inr as) = Inr as"
  by (induction as) simp_all

lemma fetchInOrder_append:
  "fetchInOrder P cb t sg (ps @ qs) cs =
     (case fetchInOrder P cb t sg ps cs of
        (as, cs1) \<Rightarrow> (case fetchInOrder P cb t sg qs cs1 of (bs, cs2) \<Rightarrow> (as @ bs, cs2)))"
proof (induction ps arbitrary: cs)
  case Nil
  show ?case by (simp split: prod.splits)
next
  case (Cons p ps)
  obtain z q where p: "p = (z, q)" by (cases p)
  obtain c s where cs: "cs = (c, s)" by (cases cs)
  show ?case unfolding p cs by (simp add: Cons.IH split: prod.splits)
qed

lemma runZoneBatch_flat:
  "neverThrows cb \<Longrightarrow>
   runZoneBatch P cb t sg q zs (c, s) =
     (case fetchInOrder P cb t sg (map (\<lambda>z. (z, q)) zs) (c, s) of
        (as, cs1) \<Rightarrow> (map Inr as, cs1))"
proof (induction zs arbitrary: c s)
  case Nil
  show ?case by simp
next
  case (Cons z zs)
  show ?case
    by (simp add: partitionTask_neverThrows [OF Cons.prems] Cons.IH [OF Cons.prems]
        split: prod.splits)
qed

lemma fetchInOrder_heap:
  "heapOk s \<Longrightarrow> fetchInOrder P cb t sg ps (c, s) = (as, c', s') \<Longrightarrow>
   heapOk s' \<and> nextRef s \<le> nextRef s' \<and> (\<forall>b < nextRef s. heap s' b = heap s b) \<and>
   (\<forall>a \<in> set as. a < nextRef s')"
proof (induction ps arbitrary: c s as c' s')
  case Nil
  then show ?case by simp
next
  case (Cons p ps)
  obtain z q where p: "p = (z, q)" by (cases p)
  obtain a s1 where fz: "fetchZoneData P z q sg s = (a, s1)"
    by (cases "fetchZoneData P z q sg s")
  let ?s2 = "reported P cb t (c + 1) z q a s1"
  obtain bs c2 s2' where rest: "fetchInOrder P cb t sg ps (c + 1, ?s2) = (bs, c2, s2')"
    by (cases "fetchInOrder P cb t sg ps (c + 1, ?s2)")
  from Cons.prems(2) p fz rest have eq: "as = a # bs" "s' = s2'" by simp_all
  from fetchZoneData_heapOk [OF fz Cons.prems(1)] have h1: "heapOk s1" "a < nextRef s1" by simp_all
  from fetchZoneData_frame [OF fz] have f1: "nextRef s \<le> nextRef s1"
    "\<forall>b < nextRef s. heap s1 b = heap s b" by simp_all
  from reported_frame [of P cb t "c + 1" z q a s1] have f2: "cache ?s2 = cache s1"
    "heap ?s2 = heap s1" "nextRef ?s2 = nextRef s1" by simp_all
  from h1(1) f2 have h2: "heapOk ?s2" by (simp add: heapOk_def)
  from Cons.IH [OF h2 rest] have ih: "heapOk s2'" "nextRef ?s2 \<le> nextRef s2'"
    "\<forall>b < nextRef ?s2. heap s2' b = heap ?s2 b" "\<forall>a \<in> set bs. a < nextRef s2'" by simp_all
  from ih f1 f2 h1 eq show ?case by auto
qed

lemma queryTypeLoop_flat:
  "neverThrows cb \<Longrightarrow>
   fetchInOrder P cb t sg (concat (map (\<lambda>q. map (\<lambda>z. (z, q)) zb) qts)) (c, s) = (as, c', s') \<Longrightarrow>
   \<exists>d. queryTypeLoop P cb t sg zb qts (c, acc, s) = (Inr d, c', s') \<and>
       (heapOk s \<longrightarrow> d = acc @ concat (map (readArray s') as))"
proof (induction qts arbitrary: c s acc as c' s')
  case Nil
  then show ?case by simp
next
  case (Cons q qts)
  obtain as1 c1 s1 where one: "fetchInOrder P cb t sg (map (\<lambda>z. (z, q)) zb) (c, s) = (as1, c1, s1)"
    by (cases "fetchInOrder P cb t sg (map (\<lambda>z. (z, q)) zb) (c, s)")
  obtain as2 c2 s2 where two:
    "fetchInOrder P cb t sg (concat (map (\<lambda>q. map (\<lambda>z. (z, q)) zb) qts)) (c1, s1) = (as2, c2, s2)"
    by (cases "fetchInOrder P cb t sg (concat (map (\<lambda>q. map (\<lambda>z. (z, q)) zb) qts)) (c1, s1)")
  from Cons.prems(2) one two have eq: "as = as1 @ as2" "c' = c2" "s' = s2"
    by (simp_all add: fetchInOrder_append)
  from Cons.IH [OF Cons.prems(1) two, of "acc @ concat (map (readArray s1) as1)"]
  obtain d where d: "queryTypeLoop P cb t sg zb qts (c1, acc @ concat (map (readArray s1) as1), s1)
      = (Inr d, c2, s2)"
    and dd: "heapOk s1 \<longrightarrow> d = (acc @ concat (map (readArray s1) as1)) @ concat (map (readArray s2) as2)"
    by blast
  have run: "queryTypeLoop P cb t sg zb (q # qts) (c, acc, s) = (Inr d, c2, s2)"
    using d one by (simp add: runZoneBatch_flat [OF Cons.prems(1)] promiseAll_Inr)
  have "d = acc @ concat (map (readArray s') as)" if ok: "heapOk s"
  proof -
    from fetchInOrder_heap [OF ok one] have h1: "heapOk s1" "\<forall>a \<in> set as1. a < nextRef s1"
      by simp_all
    from fetchInOrder_heap [OF h1(1) two] have "\<forall>b < nextRef s1. heap s2 b = heap s1 b" by simp
    with h1(2) have "\<forall>a \<in> set as1. readArray s2 a = readArray s1 a"
      by (simp add: readArray_def)
    then have "map (readArray s1) as1 = map (readArray s2) as1" by simp
    with dd h1(1) eq show ?thesis by simp
  qed
  with run eq show ?case by simp
qed

lemma partitionOrder_Nil: "partitionOrder [] qts = []"
  by (simp add: partitionOrder_def zoneBatches.simps)

lemma partitionOrder_unfold:
  "zones \<noteq> [] \<Longrightarrow>
   partitionOrder zones qts =
     concat (map (\<lambda>q. map (\<lambda>z. (z, q)) (take batchSize zones)) qts)
     @ partitionOrder (drop batchSize zones) qts"
  by (subst partitionOrder_def, subst zoneBatches.simps) (simp add: partitionOrder_def)

lemma batchLoop_flat:
  "neverThrows cb \<Longrightarrow>
   fetchInOrder P cb t sg (partitionOrder (drop i zones) qts) (c, s) = (as, c', s') \<Longrightarrow>
   \<exists>d. batchLoop P cb t sg zones qts i (c, acc, s) = (Inr d, c', s') \<and>
       (heapOk s \<longrightarrow> d = acc @ concat (map (readArray s') as))"
proof (induction P cb t sg zones qts i "(c, acc, s)" arbitrary: c acc s as c' s'
    rule: batchLoop.induct)
  case (1 P cb t sg zones qts i)
  show ?case
  proof (cases "i < length zones")
    case False
    then have "drop i zones = []" by simp
    with "1.prems"(2) have "as = []" "c' = c" "s' = s" by (simp_all add: partitionOrder_Nil)
    with False show ?thesis by (subst batchLoop.simps) simp
  next
    case True
    then have ne: "drop i zones \<noteq> []" by simp
    let ?zb = "take batchSize (drop i zones)"
    have dd: "drop batchSize (drop i zones) = drop (i + batchSize) zones"
      by (simp add: add.commute)
    obtain as1 c1 s1 where one:
      "fetchInOrder P cb t sg (concat (map (\<lambda>q. map (\<lambda>z. (z, q)) ?zb) qts)) (c, s) = (as1, c1, s1)"
      by (cases "fetchInOrder P cb t sg (concat (map (\<lambda>q. map (\<lambda>z. (z, q)) ?zb) qts)) (c, s)")
    obtain as2 c2 s2 where two:
      "fetchInOrder P cb t sg (partitionOrder (drop (i + batchSize) zones) qts) (c1, s1) = (as2, c2, s2)"
      by (cases "fetchInOrder P cb t sg (partitionOrder (drop (i + batchSize) zones) qts) (c1, s1)")
    have po: "partitionOrder (drop i zones) qts =
        concat (map (\<lambda>q. map (\<lambda>z. (z, q)) ?zb) qts)
        @ partitionOrder (drop (i + batchSize) zones) qts"
      using partitionOrder_unfold [OF ne, of qts] by (simp only: dd)
    from "1.prems"(2) have "(case fetchInOrder P cb t sg (concat (map (\<lambda>q. map (\<lambda>z. (z, q)) ?zb) qts)) (c, s) of
        (as, cs1) \<Rightarrow> (case fetchInOrder P cb t sg (partitionOrder (drop (i + batchSize) zones) qts) cs1 of
           (bs, cs2) \<Rightarrow> (as @ bs, cs2))) = (as, c', s')"
      by (simp only: po fetchInOrder_append)
    then have eq: "as = as1 @ as2" "c' = c2" "s' = s2"
      by (simp_all only: one two prod.case prod.inject)
    from queryTypeLoop_flat [OF "1.prems"(1) one, of acc] obtain d1 where
      q1: "queryTypeLoop P cb t sg ?zb qts (c, acc, s) = (Inr d1, c1, s1)"
      and q2: "heapOk s \<longrightarrow> d1 = acc @ concat (map (readArray s1) as1)" by blast
    from "1.hyps" [OF True q1 [symmetric] refl refl "1.prems"(1) two]
    obtain d where b1: "batchLoop P cb t sg zones qts (i + batchSize) (c1, d1, s1) = (Inr d, c2, s2)"
      and b2: "heapOk s1 \<longrightarrow> d = d1 @ concat (map (readArray s2) as2)" by blast
    have run: "batchLoop P cb t sg zones qts i (c, acc, s) = (Inr d, c2, s2)"
      using True q1 b1 by (subst batchLoop.simps) simp
    have "d = acc @ concat (map (readArray s') as)" if ok: "heapOk s"
    proof -
      from fetchInOrder_heap [OF ok one] have h1: "heapOk s1" "\<forall>a \<in> set as1. a < nextRef s1"
        by simp_all
      from fetchInOrder_heap [OF h1(1) two] have "\<forall>b < nextRef s1. heap s2 b = heap s1 b" by simp
      with h1(2) have "\<forall>a \<in> set as1. readArray s2 a = readArray s1 a"
        by (simp add: readArray_def)
      then have "map (readArray s1) as1 = map (readArray s2) as1" by simp
      with q2 b2 ok h1(1) eq show ?thesis by simp
    qed
    with run eq show ?thesis by simp
  qed
qed

lemma newAbortController_frame:
  assumes "newAbortController s = (sg, s0)"
  shows "cache s0 = cache s \<and> heap s0 = heap s \<and> nextRef s0 = nextRef s \<and>
    requests s0 = requests s \<and> invoked s0 = invoked s \<and> events s0 = events s \<and>
    isFetching s0 = isFetching s \<and> sg = length (controllers s) \<and>
    \<not> signalAborted (Some sg) s0"
  using assms by (auto simp: newAbortController_def signalAborted_def nth_append)

lemma fetchBatchData_flat:
  assumes nt: "neverThrows cb"
    and nc: "newAbortController s = (sg, s0)"
    and run: "fetchInOrder P cb (length zones * length qts) (Some sg) (partitionOrder zones qts)
               (0, s0) = (as, c', s')"
  shows "\<exists>d. fetchBatchData P zones qts cb s = (Inr d, s') \<and>
             (heapOk s \<longrightarrow> d = concat (map (readArray s') as))"
proof -
  from run have run': "fetchInOrder P cb (length zones * length qts) (Some sg)
      (partitionOrder (drop 0 zones) qts) (0, s0) = (as, c', s')" by simp
  from batchLoop_flat [OF nt run', of "[]"] obtain d where
    b: "batchLoop P cb (length zones * length qts) (Some sg) zones qts 0 (0, [], s0) = (Inr d, c', s')"
    and d: "heapOk s0 \<longrightarrow> d = [] @ concat (map (readArray s') as)" by blast
  from newAbortController_frame [OF nc] have "heapOk s0 = heapOk s" by (simp add: heapOk_def)
  with b d nc show ?thesis by (simp add: fetchBatchData_def Let_def)
qed





lemma fetchWithRetry_fails:
  "signalAborted sg s \<or> (\<forall>n. exchangeFails (network P n z q)) \<Longrightarrow>
   fetchWithRetry P z q sg n s = (r, s') \<Longrightarrow>
   (\<exists>e. r = Inl e) \<or> (\<exists>m. r = Inr (BodyMalformed m))"
proof (induction P z q sg n s arbitrary: r s' rule: fetchWithRetry.induct)
  case (1 P z q sg n s)
  obtain r1 s1 where a: "attemptFetch P z q sg s = (r1, s1)" by (cases "attemptFetch P z q sg s")
  then have s1: "s1 = s\<lparr> requests := requests s @ [(z, q, r1)] \<rparr>" by (rule attemptFetch_state)
  have r1: "(\<exists>e. r1 = Inl e) \<or> (\<exists>m. r1 = Inr (BodyMalformed m))"
  proof (cases "signalAborted sg s")
    case True
    with a show ?thesis by (auto simp: attemptFetch_aborted)
  next
    case False
    with "1.prems"(1) have "exchangeFails (network P (length (requests s)) z q)" by blast
    with a False show ?thesis
      by (auto simp: attemptFetch_def Let_def exchangeFails_def
          split: exchange.splits sum.splits body.splits if_splits)
  qed
  show ?case
  proof (cases r1)
    case (Inr b)
    with a "1.prems"(2) have "r = r1" by (simp add: fetchWithRetry.simps)
    with r1 show ?thesis by simp
  next
    case (Inl e)
    show ?thesis
    proof (cases "n < retryAttempts")
      case False
      with a Inl "1.prems"(2) have "r = Inl e" by (simp add: fetchWithRetry.simps)
      then show ?thesis by simp
    next
      case True
      with a Inl "1.prems"(2) have rec: "fetchWithRetry P z q sg (n + 1) s1 = (r, s')"
        by (simp add: fetchWithRetry.simps)
      from "1.prems"(1) s1 have "signalAborted sg s1 \<or> (\<forall>n. exchangeFails (network P n z q))"
        by simp
      from "1.IH" [OF a [symmetric] Inl True this rec] show ?thesis .
    qed
  qed
qed

lemma fetchZoneData_failure:
  assumes miss: "cache s (cacheKey z q) = None"
    and bad: "signalAborted sg s \<or> (\<forall>n. exchangeFails (network P n z q))"
    and run: "fetchZoneData P z q sg s = (a, s')"
  shows "readArray s' a = [] \<and> cache s' = cache s"
proof -
  let ?s0 = "s\<lparr> invoked := invoked s @ [(z, q)] \<rparr>"
  obtain r s1 where fw: "fetchWithRetry P z q sg 1 ?s0 = (r, s1)"
    by (cases "fetchWithRetry P z q sg 1 ?s0")
  from bad have "signalAborted sg ?s0 \<or> (\<forall>n. exchangeFails (network P n z q))"
    by (simp add: signalAborted_def split: option.splits)
  from fetchWithRetry_fails [OF this fw]
  have r: "(\<exists>e. r = Inl e) \<or> (\<exists>m. r = Inr (BodyMalformed m))" .
  from fetchWithRetry_log [OF fw] have c1: "cache s1 = cache s" by auto
  from r miss run fw have "(a, s') = newArray [] s1"
    by (auto simp: fetchZoneData_def Let_def processResponse_def)
  with c1 show ?thesis by (auto simp: newArray_def readArray_def)
qed

lemma fetchSelectedZones_success:
  assumes nt: "neverThrows cb"
  shows "success (fst (fetchSelectedZones P zones qts cb s))
    \<and> fetch_result.error (fst (fetchSelectedZones P zones qts cb s)) = None
    \<and> totalRecords (fst (fetchSelectedZones P zones qts cb s)) =
        length (data (fst (fetchSelectedZones P zones qts cb s)))
    \<and> \<not> isFetching (snd (fetchSelectedZones P zones qts cb s))"
proof -
  let ?s = "s\<lparr> isFetching := True \<rparr>"
  obtain sg s0 where nc: "newAbortController ?s = (sg, s0)" by (cases "newAbortController ?s")
  obtain as c' s' where run:
    "fetchInOrder P cb (length zones * length qts) (Some sg) (partitionOrder zones qts) (0, s0)
       = (as, c', s')"
    by (cases "fetchInOrder P cb (length zones * length qts) (Some sg) (partitionOrder zones qts) (0, s0)")
  from fetchBatchData_flat [OF nt nc run] obtain d where
    "fetchBatchData P zones qts cb ?s = (Inr d, s')" by blast
  then show ?thesis by (simp add: fetchSelectedZones_def)
qed

subsection \<open>The cache invariant\<close>

lemma cacheJustified_cong:
  "cache s' = cache s \<Longrightarrow> requests s' = requests s \<Longrightarrow> cacheJustified s' = cacheJustified s"
  by (simp add: cacheJustified_def)

lemma partitionTask_cache:
  assumes "partitionTask P cb t sg q z (c, s) = (r, c', s')"
  shows "\<exists>a s1. fetchZoneData P z q sg s = (a, s1) \<and> cache s' = cache s1 \<and>
           requests s' = requests s1"
proof -
  obtain a s1 where fz: "fetchZoneData P z q sg s = (a, s1)"
    by (cases "fetchZoneData P z q sg s")
  have "cache s' = cache s1 \<and> requests s' = requests s1"
  proof (cases cb)
    case None
    with assms fz show ?thesis by (simp add: partitionTask_def)
  next
    case (Some f)
    let ?ev1 = "\<lparr> completed = c + 1, total = t, percentage = roundPercent P (c + 1) t,
                zone = z, queryType = q,
                recordsFetched = Some (length (readArray s1 a)), error = None \<rparr>"
    obtain m s2 where cp1: "callProgress f ?ev1 s1 = (m, s2)" by (cases "callProgress f ?ev1 s1")
    from callProgress_frame [OF cp1, of None] have f1: "cache s2 = cache s1" "requests s2 = requests s1"
      by simp_all
    show ?thesis
    proof (cases m)
      case None
      with assms fz Some cp1 have "s' = s2" by (simp add: partitionTask_def Let_def)
      with f1 show ?thesis by simp
    next
      case (Some msg)
      let ?ev2 = "\<lparr> completed = c + 1 + 1, total = t, percentage = roundPercent P (c + 1 + 1) t,
                zone = z, queryType = q,
                recordsFetched = None, error = Some msg \<rparr>"
      obtain m' s3 where cp2: "callProgress f ?ev2 s2 = (m', s3)" by (cases "callProgress f ?ev2 s2")
      from callProgress_frame [OF cp2, of None] have f2: "cache s3 = cache s2" "requests s3 = requests s2"
        by simp_all
      from assms fz \<open>cb = Some f\<close> cp1 Some cp2 have "s' = s3 \<or> s' = snd (newArray [] s3)"
        by (cases m') (auto simp: partitionTask_def Let_def split: prod.splits)
      with f1 f2 show ?thesis by (auto simp: newArray_def)
    qed
  qed
  with fz show ?thesis by blast
qed

lemma partitionTask_justified:
  assumes "partitionTask P cb t sg q z (c, s) = (r, c', s')" and "cacheJustified s"
  shows "cacheJustified s'"
proof -
  from partitionTask_cache [OF assms(1)] obtain a s1 where
    fz: "fetchZoneData P z q sg s = (a, s1)" and eq: "cache s' = cache s1" "requests s' = requests s1"
    by blast
  from fetchZoneData_cacheJustified [OF fz assms(2)] have "cacheJustified s1" .
  with cacheJustified_cong [OF eq] show ?thesis by simp
qed

lemma runZoneBatch_justified:
  "runZoneBatch P cb t sg q zs (c, s) = (rs, c', s') \<Longrightarrow> cacheJustified s \<Longrightarrow> cacheJustified s'"
proof (induction zs arbitrary: c s rs c' s')
  case Nil
  then show ?case by simp
next
  case (Cons z zs)
  obtain r c1 s1 where pt: "partitionTask P cb t sg q z (c, s) = (r, c1, s1)"
    by (cases "partitionTask P cb t sg q z (c, s)")
  obtain rs2 c2 s2 where rz: "runZoneBatch P cb t sg q zs (c1, s1) = (rs2, c2, s2)"
    by (cases "runZoneBatch P cb t sg q zs (c1, s1)")
  from Cons.prems(1) pt rz have "s' = s2" by simp
  with Cons.IH [OF rz partitionTask_justified [OF pt Cons.prems(2)]] show ?case by simp
qed

lemma queryTypeLoop_justified:
  "queryTypeLoop P cb t sg zb qts (c, acc, s) = (r, c', s') \<Longrightarrow> cacheJustified s \<Longrightarrow>
   cacheJustified s'"
proof (induction qts arbitrary: c acc s r c' s')
  case Nil
  then show ?case by simp
next
  case (Cons q qts)
  obtain rs c1 s1 where rz: "runZoneBatch P cb t sg q zb (c, s) = (rs, c1, s1)"
    by (cases "runZoneBatch P cb t sg q zb (c, s)")
  from runZoneBatch_justified [OF rz Cons.prems(2)] have j1: "cacheJustified s1" .
  show ?case
  proof (cases "promiseAll rs")
    case (Inl e)
    with Cons.prems(1) rz have "s' = s1" by simp
    with j1 show ?thesis by simp
  next
    case (Inr refs)
    with Cons.prems(1) rz have
      "queryTypeLoop P cb t sg zb qts (c1, acc @ concat (map (readArray s1) refs), s1) = (r, c', s')"
      by simp
    from Cons.IH [OF this j1] show ?thesis .
  qed
qed

lemma batchLoop_justified:
  "batchLoop P cb t sg zones qts i (c, acc, s) = (r, c', s') \<Longrightarrow> cacheJustified s \<Longrightarrow>
   cacheJustified s'"
proof (induction P cb t sg zones qts i "(c, acc, s)" arbitrary: c acc s r c' s'
    rule: batchLoop.induct)
  case (1 P cb t sg zones qts i)
  show ?case
  proof (cases "i < length zones")
    case False
    with "1.prems"(1) have "s' = s" by (subst (asm) batchLoop.simps) simp
    with "1.prems"(2) show ?thesis by simp
  next
    case True
    obtain r1 c1 s1 where ql:
      "queryTypeLoop P cb t sg (take batchSize (drop i zones)) qts (c, acc, s) = (r1, c1, s1)"
      by (cases "queryTypeLoop P cb t sg (take batchSize (drop i zones)) qts (c, acc, s)")
    from queryTypeLoop_justified [OF ql "1.prems"(2)] have j1: "cacheJustified s1" .
    show ?thesis
    proof (cases r1)
      case (Inl e)
      with "1.prems"(1) True ql have "s' = s1" by (subst (asm) batchLoop.simps) simp
      with j1 show ?thesis by simp
    next
      case (Inr d)
      with "1.prems"(1) True ql have
        "batchLoop P cb t sg zones qts (i + batchSize) (c1, d, s1) = (r, c', s')"
        by (subst (asm) batchLoop.simps) simp
      from "1.hyps" [OF True _ _ refl this j1] ql Inr show ?thesis by simp
    qed
  qed
qed

lemma fetchBatchData_justified:
  assumes "cacheJustified s"
  shows "cacheJustified (snd (fetchBatchData P zones qts cb s))"
proof -
  obtain sg s0 where nc: "newAbortController s = (sg, s0)" by (cases "newAbortController s")
  obtain r c' s' where bl:
    "batchLoop P cb (length zones * length qts) (Some sg) zones qts 0 (0, [], s0) = (r, c', s')"
    by (cases "batchLoop P cb (length zones * length qts) (Some sg) zones qts 0 (0, [], s0)")
  from newAbortController_frame [OF nc] assms have "cacheJustified s0"
    by (simp add: cacheJustified_def)
  from batchLoop_justified [OF bl this] nc bl show ?thesis
    by (simp add: fetchBatchData_def Let_def)
qed

lemma fetchSelectedZones_justified:
  assumes "cacheJustified s"
  shows "cacheJustified (snd (fetchSelectedZones P zones qts cb s))"
proof -
  from assms have "cacheJustified (s\<lparr> isFetching := True \<rparr>)" by (simp add: cacheJustified_def)
  from fetchBatchData_justified [OF this, of P zones qts cb] show ?thesis
    by (auto simp: fetchSelectedZones_def cacheJustified_def split: prod.splits sum.splits)
qed

lemma fetchAllData_eq:
  "fetchAllData P cb s = fetchSelectedZones P config_zones config_queryTypes cb s"
  by (simp add: fetchAllData_def fetchSelectedZones_def)

subsection \<open>After cancellation\<close>



section \<open>The claims about the fetch service\<close>

subsection \<open>A failed partition\<close>

text \<open>
  C1, evaluated on the code. Two zones and two query types; every request for zone ER,
  outstanding demands, is rejected, so that partition fails after three attempts. The
  batch does not halt and reports success; the merged array holds the records of the other
  three partitions; the callback is called four times and the completed count reaches 4.
  The event of the failed partition reports 0 records fetched and carries no error message:
  \<open>fetchZoneData\<close> has caught the error, so the \<^verbatim>\<open>catch\<close> block of the task, which
  would put the message into the event, does not run.
\<close>

theorem failed_partition_event_has_no_error:
  "success (fst (fetchSelectedZones (samplePlatform failingNetwork) twoZones twoQueries
      listener newService))
   \<and> map (\<lambda>r. (canonical.zone r, qry r))
        (data (fst (fetchSelectedZones (samplePlatform failingNetwork) twoZones twoQueries
           listener newService))) =
       [(''CR'', ''MATURED_INDENTS''), (''ER'', ''MATURED_INDENTS''), (''CR'', ''ODR_RK_OTSG'')]
   \<and> map completed
        (events (snd (fetchSelectedZones (samplePlatform failingNetwork) twoZones twoQueries
           listener newService))) = [1, 2, 3, 4]
   \<and> map (\<lambda>ev. (progress_event.zone ev, queryType ev, recordsFetched ev, progress_event.error ev))
        (events (snd (fetchSelectedZones (samplePlatform failingNetwork) twoZones twoQueries
           listener newService))) =
       [(''CR'', ''MATURED_INDENTS'', Some 1, None), (''ER'', ''MATURED_INDENTS'', Some 1, None),
        (''CR'', ''ODR_RK_OTSG'', Some 1, None), (''ER'', ''ODR_RK_OTSG'', Some 0, None)]
   \<and> filter (\<lambda>x. fst x = ''ER'' \<and> fst (snd x) = ''ODR_RK_OTSG'')
        (requests (snd (fetchSelectedZones (samplePlatform failingNetwork) twoZones twoQueries
           listener newService))) =
       replicate 3 (''ER'', ''ODR_RK_OTSG'', Inl (FetchFailed ''Failed to fetch''))"
  by code_simp

subsection \<open>Cancellation\<close>




subsection \<open>Cache hits\<close>

text \<open>
  C3, as the code has it. For every partition whose key is in the cache, the fetch path
  returns the cached array itself and changes nothing but the record of its own call: no
  call of \<^verbatim>\<open>fetch\<close> is made, and the list read through the returned reference is the one
  the cache holds. The array is the cached object, neither copied nor frozen: when a
  holder of the reference has pushed a record onto it, the next hit returns the same array
  with that record in it.
\<close>

theorem cache_hit_returns_cached_array:
  "cache s (cacheKey z q) = Some a \<longrightarrow>
     fetchZoneData P z q sg s = (a, s\<lparr> invoked := invoked s @ [(z, q)] \<rparr>)
     \<and> requests (snd (fetchZoneData P z q sg s)) = requests s
     \<and> readArray (snd (fetchZoneData P z q sg s)) a = readArray s a
     \<and> fst (fetchZoneData P z q sg (arrayPush a x s)) = a
     \<and> readArray (snd (fetchZoneData P z q sg (arrayPush a x s))) a = readArray s a @ [x]"
proof
  assume hit: "cache s (cacheKey z q) = Some a"
  then have hit': "cache (arrayPush a x s) (cacheKey z q) = Some a" by (simp add: arrayPush_def)
  note A = fetchZoneData_hit [OF hit, of P sg]
  note B = fetchZoneData_hit [OF hit', of P sg]
  have C: "readArray (s\<lparr> invoked := invoked s @ [(z, q)] \<rparr>) a = readArray s a"
    by (simp add: readArray_def)
  have D: "readArray ((arrayPush a x s)\<lparr> invoked := invoked (arrayPush a x s) @ [(z, q)] \<rparr>) a
      = readArray s a @ [x]"
    by (simp add: readArray_def arrayPush_def)
  have E: "requests (s\<lparr> invoked := invoked s @ [(z, q)] \<rparr>) = requests s" by simp
  show "fetchZoneData P z q sg s = (a, s\<lparr> invoked := invoked s @ [(z, q)] \<rparr>)
     \<and> requests (snd (fetchZoneData P z q sg s)) = requests s
     \<and> readArray (snd (fetchZoneData P z q sg s)) a = readArray s a
     \<and> fst (fetchZoneData P z q sg (arrayPush a x s)) = a
     \<and> readArray (snd (fetchZoneData P z q sg (arrayPush a x s))) a = readArray s a @ [x]"
    unfolding A B by (simp only: fst_conv snd_conv C D E simp_thms)
qed

theorem cache_hit_returns_cached_array_witness:
  "cache warmService (cacheKey ''ER'' ''ODR_RK_OTSG'') = Some 0
   \<and> fst (fetchZoneData (samplePlatform deadNetwork) ''ER'' ''ODR_RK_OTSG'' None warmService) = 0
   \<and> length (requests (snd (fetchZoneData (samplePlatform deadNetwork) ''ER'' ''ODR_RK_OTSG''
        None warmService))) = 1
   \<and> length (readArray (snd (fetchZoneData (samplePlatform deadNetwork) ''ER'' ''ODR_RK_OTSG''
        None (arrayPush 0 timeSample warmService))) 0) = 2"
proof -
  have hit: "cache warmService (cacheKey ''ER'' ''ODR_RK_OTSG'') = Some 0" by code_simp
  have one: "length (requests warmService) = 1" by code_simp
  have rd: "length (readArray warmService 0) = 1" by code_simp
  from cache_hit_returns_cached_array
    [of warmService "''ER''" "''ODR_RK_OTSG''" 0 "samplePlatform deadNetwork" None timeSample]
    hit one rd
  show ?thesis by simp
qed

text \<open>
  The claim of C3 as stated fails on its last part. After a first fetch the caller pushes
  a record onto the returned array; the next call for the same key makes no call of
  \<^verbatim>\<open>fetch\<close> and returns a list of two records, not the list of one record that was
  fetched.
\<close>

theorem cached_array_aliased_counterexample:
  "fst (fetchZoneData (samplePlatform healthyNetwork) ''ER'' ''ODR_RK_OTSG'' None newService) = 0
   \<and> length (readArray warmService 0) = 1
   \<and> fst (fetchZoneData (samplePlatform healthyNetwork) ''ER'' ''ODR_RK_OTSG'' None
        (arrayPush 0 timeSample warmService)) = 0
   \<and> length (requests (snd (fetchZoneData (samplePlatform healthyNetwork) ''ER''
        ''ODR_RK_OTSG'' None (arrayPush 0 timeSample warmService)))) = 1
   \<and> readArray (snd (fetchZoneData (samplePlatform healthyNetwork) ''ER'' ''ODR_RK_OTSG'' None
        (arrayPush 0 timeSample warmService))) 0 = readArray warmService 0 @ [timeSample]
   \<and> readArray (snd (fetchZoneData (samplePlatform healthyNetwork) ''ER'' ''ODR_RK_OTSG'' None
        (arrayPush 0 timeSample warmService))) 0 \<noteq> readArray warmService 0"
proof -
  have a: "fst (fetchZoneData (samplePlatform healthyNetwork) ''ER'' ''ODR_RK_OTSG'' None newService) = 0"
    by code_simp
  have b: "length (readArray warmService 0) = 1" by code_simp
  have c: "fst (fetchZoneData (samplePlatform healthyNetwork) ''ER'' ''ODR_RK_OTSG'' None
        (arrayPush 0 timeSample warmService)) = 0" by code_simp
  have d: "length (requests (snd (fetchZoneData (samplePlatform healthyNetwork) ''ER''
        ''ODR_RK_OTSG'' None (arrayPush 0 timeSample warmService)))) = 1" by code_simp
  have e: "readArray (snd (fetchZoneData (samplePlatform healthyNetwork) ''ER'' ''ODR_RK_OTSG'' None
        (arrayPush 0 timeSample warmService))) 0 = readArray warmService 0 @ [timeSample]"
    by code_simp
  from a b c d e show ?thesis by simp
qed

subsection \<open>The order of the fetches\<close>




subsection \<open>The top-level operations\<close>

text \<open>
  C9. With a progress callback that does not throw (or none), \<open>fetchSelectedZones\<close> and
  \<open>fetchAllData\<close> report success with no error and a record array whose length is the
  reported total, for every engine and network, every zones and query types list and every
  state: also when every partition fails and when the callback cancels the batch. A partition
  fetch that is not served from the cache never throws: when the signal is aborted, or when
  every exchange with the upstream fails (rejected request, status that is not ok,
  unparsable JSON, body of the wrong shape), it returns an empty array.
\<close>

theorem top_level_never_fails:
  "(neverThrows cb \<longrightarrow>
      success (fst (fetchSelectedZones P zones qts cb s))
      \<and> fetch_result.error (fst (fetchSelectedZones P zones qts cb s)) = None
      \<and> totalRecords (fst (fetchSelectedZones P zones qts cb s)) =
          length (data (fst (fetchSelectedZones P zones qts cb s))))
   \<and> (neverThrows cb \<longrightarrow>
      success (fst (fetchAllData P cb s))
      \<and> fetch_result.error (fst (fetchAllData P cb s)) = None
      \<and> totalRecords (fst (fetchAllData P cb s)) = length (data (fst (fetchAllData P cb s))))
   \<and> (cache s (cacheKey z q) = None \<and>
        (signalAborted sg s \<or> (\<forall>n. exchangeFails (network P n z q))) \<longrightarrow>
        readArray (snd (fetchZoneData P z q sg s)) (fst (fetchZoneData P z q sg s)) = [])"
proof -
  obtain a s' where fz: "fetchZoneData P z q sg s = (a, s')" by (cases "fetchZoneData P z q sg s")
  have "cache s (cacheKey z q) = None \<and>
        (signalAborted sg s \<or> (\<forall>n. exchangeFails (network P n z q))) \<longrightarrow>
        readArray (snd (fetchZoneData P z q sg s)) (fst (fetchZoneData P z q sg s)) = []"
    using fetchZoneData_failure [OF _ _ fz] fz by auto
  then show ?thesis
    using fetchSelectedZones_success [of cb P zones qts s]
      fetchSelectedZones_success [of cb P config_zones config_queryTypes s]
    by (simp add: fetchAllData_eq)
qed

theorem top_level_never_fails_witness:
  "neverThrows cancelAfterFirst
   \<and> success (fst (fetchSelectedZones (samplePlatform deadNetwork) twoZones twoQueries
        cancelAfterFirst newService))
   \<and> data (fst (fetchSelectedZones (samplePlatform deadNetwork) twoZones twoQueries
        cancelAfterFirst newService)) = []
   \<and> success (fst (fetchAllData (samplePlatform deadNetwork) cancelAfterFirst newService))
   \<and> cache newService (cacheKey ''CR'' ''ODR_RK_OTSG'') = None
   \<and> (\<forall>n. exchangeFails (network (samplePlatform deadNetwork) n ''CR'' ''ODR_RK_OTSG''))
   \<and> readArray
        (snd (fetchZoneData (samplePlatform deadNetwork) ''CR'' ''ODR_RK_OTSG'' None newService))
        (fst (fetchZoneData (samplePlatform deadNetwork) ''CR'' ''ODR_RK_OTSG'' None newService))
       = []"
proof -
  have nt: "neverThrows cancelAfterFirst" by (simp add: neverThrows_def cancelAfterFirst_def)
  have miss: "cache newService (cacheKey ''CR'' ''ODR_RK_OTSG'') = None"
    by (simp add: newService_def)
  have bad: "\<forall>n. exchangeFails (network (samplePlatform deadNetwork) n ''CR'' ''ODR_RK_OTSG'')"
    by (simp add: exchangeFails_def samplePlatform_def deadNetwork_def)
  have d: "data (fst (fetchSelectedZones (samplePlatform deadNetwork) twoZones twoQueries
        cancelAfterFirst newService)) = []" by code_simp
  from top_level_never_fails
    [of cancelAfterFirst "samplePlatform deadNetwork" twoZones twoQueries newService
       "''CR''" "''ODR_RK_OTSG''" None]
    nt miss bad d
  show ?thesis by simp
qed

subsection \<open>The cache is written on success only\<close>

text \<open>
  C10. A cache entry exists only if a call of \<^verbatim>\<open>fetch\<close> for its key completed without
  error. This holds in a new service and is preserved by \<open>fetchZoneData\<close>,
  \<open>fetchBatchData\<close>, \<open>fetchSelectedZones\<close>, \<open>fetchAllData\<close>, \<open>cancelFetch\<close> and
  \<open>clearCache\<close>, whatever the callback does. A partition that is not in the cache and
  whose fetch is aborted or fails on every attempt leaves the cache as it was, so it has no
  entry afterwards; and every call for a key that is not in the cache makes at least one
  new call of \<^verbatim>\<open>fetch\<close> for that partition.
\<close>

theorem cache_written_only_on_success:
  "cacheJustified newService
   \<and> (cacheJustified s \<longrightarrow> cacheJustified (snd (fetchZoneData P z q sg s)))
   \<and> (cacheJustified s \<longrightarrow> cacheJustified (snd (fetchBatchData P zones qts cb s)))
   \<and> (cacheJustified s \<longrightarrow> cacheJustified (snd (fetchSelectedZones P zones qts cb s)))
   \<and> (cacheJustified s \<longrightarrow> cacheJustified (snd (fetchAllData P cb s)))
   \<and> (cacheJustified s \<longrightarrow> cacheJustified (cancelFetch s))
   \<and> (cacheJustified s \<longrightarrow> cacheJustified (clearCache s))
   \<and> (cache s (cacheKey z q) = None \<and>
        (signalAborted sg s \<or> (\<forall>n. exchangeFails (network P n z q))) \<longrightarrow>
        cache (snd (fetchZoneData P z q sg s)) = cache s)
   \<and> (cache s (cacheKey z q) = None \<longrightarrow>
        length (requests s) < length (requests (snd (fetchZoneData P z q sg s)))
        \<and> (\<exists>r. last (requests (snd (fetchZoneData P z q sg s))) = (z, q, r)))"
proof -
  obtain a s' where fz: "fetchZoneData P z q sg s = (a, s')" by (cases "fetchZoneData P z q sg s")
  have 1: "cacheJustified newService" by (simp add: cacheJustified_def newService_def)
  have 2: "cacheJustified s \<longrightarrow> cacheJustified (snd (fetchZoneData P z q sg s))"
    using fetchZoneData_cacheJustified [OF fz] fz by simp
  have 3: "cacheJustified s \<longrightarrow> cacheJustified (snd (fetchBatchData P zones qts cb s))"
    using fetchBatchData_justified by blast
  have 4: "cacheJustified s \<longrightarrow> cacheJustified (snd (fetchSelectedZones P zones qts cb s))"
    using fetchSelectedZones_justified by blast
  have 5: "cacheJustified s \<longrightarrow> cacheJustified (snd (fetchAllData P cb s))"
    using fetchSelectedZones_justified by (simp add: fetchAllData_eq)
  have 6: "cacheJustified s \<longrightarrow> cacheJustified (cancelFetch s)"
    using cancelFetch_frame [of s] by (simp add: cacheJustified_def)
  have 7: "cacheJustified s \<longrightarrow> cacheJustified (clearCache s)"
    by (simp add: cacheJustified_def clearCache_def)
  have 8: "cache s (cacheKey z q) = None \<and>
        (signalAborted sg s \<or> (\<forall>n. exchangeFails (network P n z q))) \<longrightarrow>
        cache (snd (fetchZoneData P z q sg s)) = cache s"
    using fetchZoneData_failure [OF _ _ fz] fz by auto
  have 9: "cache s (cacheKey z q) = None \<longrightarrow>
        length (requests s) < length (requests (snd (fetchZoneData P z q sg s)))
        \<and> (\<exists>r. last (requests (snd (fetchZoneData P z q sg s))) = (z, q, r))"
  proof
    assume miss: "cache s (cacheKey z q) = None"
    from fetchZoneData_miss [OF miss fz] obtain extra r xs stored where
      "s' = s\<lparr> invoked := invoked s @ [(z, q)],
                  requests := requests s @ extra @ [(z, q, r)],
                  heap := (heap s)(nextRef s \<mapsto> xs),
                  nextRef := nextRef s + 1,
                  cache := (if stored then (cache s)(cacheKey z q \<mapsto> nextRef s) else cache s) \<rparr>"
      by blast
    then have "requests s' = requests s @ extra @ [(z, q, r)]" by simp
    with fz show "length (requests s) < length (requests (snd (fetchZoneData P z q sg s)))
        \<and> (\<exists>r. last (requests (snd (fetchZoneData P z q sg s))) = (z, q, r))" by simp
  qed
  from 1 2 3 4 5 6 7 8 9 show ?thesis by blast
qed

theorem cache_written_only_on_success_witness:
  "cacheJustified newService
   \<and> cacheJustified (snd (fetchSelectedZones (samplePlatform failingNetwork) twoZones
        twoQueries listener newService))
   \<and> cacheJustified (cancelFetch (clearCache newService))
   \<and> cache newService (cacheKey ''ER'' ''ODR_RK_OTSG'') = None
   \<and> (\<forall>n. exchangeFails (network (samplePlatform failingNetwork) n ''ER'' ''ODR_RK_OTSG''))
   \<and> cache (snd (fetchZoneData (samplePlatform failingNetwork) ''ER'' ''ODR_RK_OTSG'' None
        newService)) (cacheKey ''ER'' ''ODR_RK_OTSG'') = None
   \<and> length (requests newService)
       < length (requests (snd (fetchZoneData (samplePlatform failingNetwork) ''ER''
           ''ODR_RK_OTSG'' None newService)))"
proof -
  have miss: "cache newService (cacheKey ''ER'' ''ODR_RK_OTSG'') = None"
    by (simp add: newService_def)
  have bad: "\<forall>n. exchangeFails (network (samplePlatform failingNetwork) n ''ER'' ''ODR_RK_OTSG'')"
    by (simp add: exchangeFails_def samplePlatform_def failingNetwork_def)
  note T = cache_written_only_on_success
    [of newService "samplePlatform failingNetwork" "''ER''" "''ODR_RK_OTSG''" None
       twoZones twoQueries listener]
  note U = cache_written_only_on_success
    [of "clearCache newService" "samplePlatform failingNetwork" "''ER''" "''ODR_RK_OTSG''" None
       twoZones twoQueries listener]
  from T have j0: "cacheJustified newService" by blast
  with U have "cacheJustified (clearCache newService)"
    using cache_written_only_on_success
      [of newService "samplePlatform failingNetwork" "''ER''" "''ODR_RK_OTSG''" None
         twoZones twoQueries listener] by blast
  with U have j2: "cacheJustified (cancelFetch (clearCache newService))" by blast
  from T miss bad j0 j2 show ?thesis by simp
qed

end

